theory Spec2Isabelle
  imports Complex_Main "HOL-Library.Word" "HOL-Library.Monad_Syntax"
begin

unbundle bit_operations_syntax

section \<open>The DHT22 driver of \<^verbatim>\<open>dht_sensor.c\<close>\<close>

subsection \<open>Data of \<^verbatim>\<open>dht_sensor.h\<close>\<close>

type_synonym dht_sensor = int

datatype dht_retval = DHT_OK | DHT_ERR_GPIO | DHT_ERR_BADCHECKSUM | DHT_ERR_TIMEOUT

text \<open>
  The two \<^verbatim>\<open>float\<close> fields hold the rational value of a finite binary32 number; the
  operations on them round as binary32 does (\<open>f32_round\<close> below). The sign of a zero is
  not represented.
\<close>

record dht_reading =
  temperature :: rat
  humidity :: rat
  checksum :: "8 word"

subsection \<open>Binary32 arithmetic on finite values\<close>

text \<open>
  \<open>f32_exponent x\<close> is the exponent of the binade of \<open>x\<close>: the least \<open>e\<close> from
  \<open>-126\<close> on with \<open>\<bar>x\<bar> < 2 ^ (e + 1)\<close>, so that subnormal numbers share the exponent
  \<open>-126\<close>. \<open>round_half_even\<close> rounds to the nearest integer, a tie to the even one.
  \<open>f32_round\<close> rounds to the nearest multiple of the unit in the last place of the 24-bit
  significand. Results of magnitude \<open>2 ^ 128\<close> and more (infinities) are outside this
  model; the driver's operands are integers below \<open>2 ^ 16\<close>.
\<close>

definition f32_exponent :: "rat \<Rightarrow> int" where
  "f32_exponent x =
     (case find (\<lambda>e. \<bar>x\<bar> < 2 powi (e + 1)) [-126..127] of Some e \<Rightarrow> e | None \<Rightarrow> 127)"

definition round_half_even :: "rat \<Rightarrow> int" where
  "round_half_even s =
     (let f = \<lfloor>s\<rfloor>; r = s - of_int f
      in if r < 1 / 2 then f else if 1 / 2 < r then f + 1 else if even f then f else f + 1)"

definition f32_round :: "rat \<Rightarrow> rat" where
  "f32_round x =
     (let u = 2 powi (f32_exponent x - 23) in of_int (round_half_even (x / u)) * u)"

definition f32_of_int :: "int \<Rightarrow> rat" where
  "f32_of_int i = f32_round (of_int i)"

definition f32_add :: "rat \<Rightarrow> rat \<Rightarrow> rat" where
  "f32_add a b = f32_round (a + b)"

definition f32_mul :: "rat \<Rightarrow> rat \<Rightarrow> rat" where
  "f32_mul a b = f32_round (a * b)"

definition f32_div :: "rat \<Rightarrow> rat \<Rightarrow> rat" where
  "f32_div a b = f32_round (a / b)"

subsection \<open>The environment: GPIO, timer and delay of the ESP-IDF\<close>

text \<open>
  The driver talks to its environment through five primitives. Their answers are given by
  three sequences: the \<open>k\<close>-th call of \<^verbatim>\<open>gpio_set_direction\<close> or \<^verbatim>\<open>gpio_set_level\<close>
  returns \<open>gpio_results k\<close>, the \<open>k\<close>-th call of \<^verbatim>\<open>gpio_get_level\<close> returns
  \<open>line_levels k\<close>, the \<open>k\<close>-th call of \<^verbatim>\<open>esp_timer_get_time\<close> returns
  \<open>timer_values k\<close>. The timer is an \<^verbatim>\<open>int64_t\<close> count of microseconds since boot,
  taken as an integer. Every call is recorded in \<open>trace\<close>, the latest call first.
  \<open>ESP_OK\<close> is the success code of the ESP-IDF.
\<close>

datatype gpio_mode = GPIO_MODE_INPUT | GPIO_MODE_OUTPUT

datatype call =
    Set_direction int gpio_mode
  | Set_level int int
  | Get_level int
  | Get_time
  | Delay_us int

record world =
  gpio_results :: "nat \<Rightarrow> int"
  line_levels :: "nat \<Rightarrow> int"
  timer_values :: "nat \<Rightarrow> int"
  gpio_calls :: nat
  level_calls :: nat
  timer_calls :: nat
  trace :: "call list"

definition ESP_OK :: int where
  "ESP_OK = 0"

definition gpio_set_direction :: "world \<Rightarrow> int \<Rightarrow> gpio_mode \<Rightarrow> int \<times> world" where
  "gpio_set_direction w pin m =
     (gpio_results w (gpio_calls w),
      w\<lparr>gpio_calls := Suc (gpio_calls w), trace := Set_direction pin m # trace w\<rparr>)"

definition gpio_set_level :: "world \<Rightarrow> int \<Rightarrow> int \<Rightarrow> int \<times> world" where
  "gpio_set_level w pin l =
     (gpio_results w (gpio_calls w),
      w\<lparr>gpio_calls := Suc (gpio_calls w), trace := Set_level pin l # trace w\<rparr>)"

definition gpio_get_level :: "world \<Rightarrow> int \<Rightarrow> int \<times> world" where
  "gpio_get_level w pin =
     (line_levels w (level_calls w),
      w\<lparr>level_calls := Suc (level_calls w), trace := Get_level pin # trace w\<rparr>)"

definition esp_timer_get_time :: "world \<Rightarrow> int \<times> world" where
  "esp_timer_get_time w =
     (timer_values w (timer_calls w),
      w\<lparr>timer_calls := Suc (timer_calls w), trace := Get_time # trace w\<rparr>)"

definition ets_delay_us :: "world \<Rightarrow> int \<Rightarrow> world" where
  "ets_delay_us w us = w\<lparr>trace := Delay_us us # trace w\<rparr>"

subsection \<open>Constants of \<^verbatim>\<open>dht_sensor.c\<close>\<close>

definition DHT_BYTES_PER_READ :: nat where
  "DHT_BYTES_PER_READ = 5"

definition spec_us_out_request_low :: int where
  "spec_us_out_request_low = 3000"

definition spec_us_out_request_high :: int where
  "spec_us_out_request_high = 20"

definition spec_us_in_ready_signal_half :: int where
  "spec_us_in_ready_signal_half = 80"

definition spec_us_in_data_bit_low :: int where
  "spec_us_in_data_bit_low = 50"

definition spec_us_in_data_bit_high :: int where
  "spec_us_in_data_bit_high = 70"

definition spec_us_bit_length_threshold :: int where
  "spec_us_bit_length_threshold = 40"

definition measured_us_max_transition_t :: int where
  "measured_us_max_transition_t = 10"

subsection \<open>The functions of \<^verbatim>\<open>dht_sensor.c\<close>\<close>

definition dht_request_readings :: "world \<Rightarrow> dht_sensor \<Rightarrow> dht_retval \<times> world" where
  "dht_request_readings w dht =
     (case gpio_set_direction w dht GPIO_MODE_OUTPUT of (r1, w1) \<Rightarrow>
      if r1 \<noteq> ESP_OK then (DHT_ERR_GPIO, w1) else
      case gpio_set_level w1 dht 0 of (r2, w2) \<Rightarrow>
      if r2 \<noteq> ESP_OK then (DHT_ERR_GPIO, w2) else
      let w3 = ets_delay_us w2 spec_us_out_request_low in
      case gpio_set_level w3 dht 1 of (r4, w4) \<Rightarrow>
      if r4 \<noteq> ESP_OK then (DHT_ERR_GPIO, w4) else
      let w5 = ets_delay_us w4 spec_us_out_request_high in
      case gpio_set_direction w5 dht GPIO_MODE_INPUT of (r6, w6) \<Rightarrow>
      if r6 \<noteq> ESP_OK then (DHT_ERR_GPIO, w6) else
      (DHT_OK, w6))"

text \<open>
  The four busy-wait loops of \<^verbatim>\<open>dht_await_data\<close> and \<^verbatim>\<open>dht_read_bit\<close> have one shape,
  \<^verbatim>\<open>while(gpio_get_level(dht) == lvl) { if((esp_timer_get_time() - uptime_entry) >= timeout)
  return DHT_ERR_TIMEOUT; }\<close>. \<open>wait_while_level\<close> is that loop: \<open>Some (DHT_OK, w')\<close> when
  the loop is left by its condition, \<open>Some (DHT_ERR_TIMEOUT, w')\<close> when the function returns
  from inside it, \<open>None\<close> when the loop never ends.
\<close>

partial_function (option) wait_while_level ::
  "dht_sensor \<Rightarrow> int \<Rightarrow> int \<Rightarrow> int \<Rightarrow> world \<Rightarrow> (dht_retval \<times> world) option"
where
  "wait_while_level dht lvl uptime_entry timeout_usec w =
     (case gpio_get_level w dht of (l, w1) \<Rightarrow>
      if l = lvl then
        (case esp_timer_get_time w1 of (t, w2) \<Rightarrow>
         if t - uptime_entry \<ge> timeout_usec then Some (DHT_ERR_TIMEOUT, w2)
         else wait_while_level dht lvl uptime_entry timeout_usec w2)
      else Some (DHT_OK, w1))"

declare wait_while_level.simps [code]

definition dht_await_data :: "world \<Rightarrow> dht_sensor \<Rightarrow> (dht_retval \<times> world) option" where
  "dht_await_data w dht =
     (let timeout_usec = spec_us_in_ready_signal_half + 10;
          (uptime_entry, w1) = esp_timer_get_time w in
      do {
        (s1, w2) \<leftarrow> wait_while_level dht 0 uptime_entry timeout_usec w1;
        if s1 \<noteq> DHT_OK then Some (DHT_ERR_TIMEOUT, w2) else
        (let (uptime_entry, w3) = esp_timer_get_time w2 in
         do {
           (s2, w4) \<leftarrow> wait_while_level dht 1 uptime_entry timeout_usec w3;
           if s2 \<noteq> DHT_OK then Some (DHT_ERR_TIMEOUT, w4) else
           Some (DHT_OK, w4)
         })
      })"

text \<open>
  \<^verbatim>\<open>dht_read_bit\<close> writes through \<^verbatim>\<open>read_bit\<close> only on success: the model takes the
  caller's value of \<^verbatim>\<open>*read_bit\<close> and returns it, updated or not.
\<close>

definition dht_read_bit ::
  "world \<Rightarrow> dht_sensor \<Rightarrow> bool \<Rightarrow> (dht_retval \<times> bool \<times> world) option" where
  "dht_read_bit w dht read_bit =
     (let timeout_low_usec = spec_us_in_data_bit_low + 20;
          timeout_high_usec = spec_us_in_data_bit_high + 20;
          (uptime_entry, w1) = esp_timer_get_time w in
      do {
        (s1, w2) \<leftarrow> wait_while_level dht 0 uptime_entry timeout_low_usec w1;
        if s1 \<noteq> DHT_OK then Some (DHT_ERR_TIMEOUT, read_bit, w2) else
        (let (uptime_entry, w3) = esp_timer_get_time w2 in
         do {
           (s2, w4) \<leftarrow> wait_while_level dht 1 uptime_entry timeout_high_usec w3;
           if s2 \<noteq> DHT_OK then Some (DHT_ERR_TIMEOUT, read_bit, w4) else
           (let (t, w5) = esp_timer_get_time w4;
                usec_spent_high = t - uptime_entry in
            Some (DHT_OK,
                  (if usec_spent_high < spec_us_bit_length_threshold then False else True),
                  w5))
         })
      })"

definition dht_init :: "world \<Rightarrow> dht_sensor \<Rightarrow> dht_retval \<times> world" where
  "dht_init w dht =
     (case gpio_set_direction w dht GPIO_MODE_OUTPUT of (r1, w1) \<Rightarrow>
      if r1 \<noteq> ESP_OK then (DHT_ERR_GPIO, w1) else
      case gpio_set_level w1 dht 1 of (r2, w2) \<Rightarrow>
      if r2 \<noteq> ESP_OK then (DHT_ERR_GPIO, w2) else
      (DHT_OK, w2))"

text \<open>
  The inner loop of \<^verbatim>\<open>dht_read\<close>, \<^verbatim>\<open>for(int bit_idx = 7; bit_idx >= 0; bit_idx--)\<close>. The
  first argument is \<^verbatim>\<open>bit_idx + 1\<close>, the number of bits still to read. The result
  carries the locals \<^verbatim>\<open>byte_in\<close> and \<^verbatim>\<open>bit_in\<close>.
\<close>

fun read_byte_loop ::
  "nat \<Rightarrow> dht_sensor \<Rightarrow> 8 word \<Rightarrow> bool \<Rightarrow> world \<Rightarrow> (dht_retval \<times> 8 word \<times> bool \<times> world) option"
where
  "read_byte_loop 0 dht byte_in bit_in w = Some (DHT_OK, byte_in, bit_in, w)"
| "read_byte_loop (Suc bit_idx) dht byte_in bit_in w =
     do {
       (s, bit_in', w1) \<leftarrow> dht_read_bit w dht bit_in;
       if s \<noteq> DHT_OK then Some (DHT_ERR_TIMEOUT, byte_in, bit_in', w1) else
       (let byte_in' = (if bit_in' = True then byte_in OR push_bit bit_idx 0x01 else byte_in);
            w2 = ets_delay_us w1 measured_us_max_transition_t
        in read_byte_loop bit_idx dht byte_in' bit_in' w2)
     }"

text \<open>
  The outer loop, \<^verbatim>\<open>for(uint8_t byte_idx = 0; byte_idx < DHT_BYTES_PER_READ; byte_idx++)\<close>.
  The result carries the local array \<^verbatim>\<open>buf\<close> as it is when the loop is left.
\<close>

function read_frame_loop ::
  "nat \<Rightarrow> dht_sensor \<Rightarrow> 8 word list \<Rightarrow> bool \<Rightarrow> world \<Rightarrow> (dht_retval \<times> 8 word list \<times> world) option"
where
  "read_frame_loop byte_idx dht buf bit_in w =
     (if byte_idx < DHT_BYTES_PER_READ then
        do {
          (s, byte_in, bit_in', w1) \<leftarrow> read_byte_loop 8 dht 0x00 bit_in w;
          if s \<noteq> DHT_OK then Some (DHT_ERR_TIMEOUT, buf, w1)
          else read_frame_loop (Suc byte_idx) dht (buf[byte_idx := byte_in]) bit_in' w1
        }
      else Some (DHT_OK, buf, w))"
  by pat_completeness auto
termination
  by (relation "measure (\<lambda>(byte_idx, dht, buf, bit_in, w). DHT_BYTES_PER_READ - byte_idx)") auto

declare read_frame_loop.simps [simp del]

text \<open>
  The block \<^verbatim>\<open>/* Parse data buffer */\<close> of \<^verbatim>\<open>dht_read\<close>, one assignment per line. The
  bytes are promoted to \<^verbatim>\<open>int\<close> and converted to \<^verbatim>\<open>float\<close>; the compound
  assignments compute in \<^verbatim>\<open>float\<close>.
\<close>

definition parse_buffer :: "dht_reading \<Rightarrow> 8 word list \<Rightarrow> dht_reading" where
  "parse_buffer reading0 buf =
     (let reading = reading0\<lparr>humidity := f32_of_int (uint (buf ! 0))\<rparr>;
          reading = reading\<lparr>humidity := f32_mul (humidity reading) (f32_of_int 0x100)\<rparr>;
          reading = reading\<lparr>humidity := f32_add (humidity reading) (f32_of_int (uint (buf ! 1)))\<rparr>;
          reading = reading\<lparr>humidity := f32_div (humidity reading) (f32_of_int 10)\<rparr>;
          reading = reading\<lparr>temperature := f32_of_int (uint (buf ! 2) AND 0x7F)\<rparr>;
          reading = reading\<lparr>temperature := f32_mul (temperature reading) (f32_of_int 0x100)\<rparr>;
          reading = reading\<lparr>temperature := f32_add (temperature reading) (f32_of_int (uint (buf ! 3)))\<rparr>;
          reading = reading\<lparr>temperature := f32_div (temperature reading) (f32_of_int 10)\<rparr>;
          reading = (if uint (buf ! 2) AND 0x80 \<noteq> 0
                     then reading\<lparr>temperature := f32_mul (temperature reading) (f32_of_int (-1))\<rparr>
                     else reading);
          reading = reading\<lparr>checksum := buf ! 4\<rparr>
      in reading)"

text \<open>
  \<^verbatim>\<open>dht_read\<close>. The caller's \<^verbatim>\<open>*reading\<close> is an argument and part of the result; \<open>None\<close>
  is a call that never returns.
\<close>

definition dht_read ::
  "world \<Rightarrow> dht_sensor \<Rightarrow> dht_reading \<Rightarrow> (dht_retval \<times> dht_reading \<times> world) option" where
  "dht_read w dht reading0 =
     (let buf = replicate DHT_BYTES_PER_READ (0x00 :: 8 word);
          bit_in = False;
          reading = reading0\<lparr>temperature := 0, humidity := 0, checksum := 0x00\<rparr>;
          (s1, w1) = dht_request_readings w dht in
      if s1 \<noteq> DHT_OK then Some (DHT_ERR_GPIO, reading, w1) else
      do {
        (s2, w2) \<leftarrow> dht_await_data w1 dht;
        if s2 \<noteq> DHT_OK then Some (DHT_ERR_TIMEOUT, reading, w2) else
        do {
          (s3, buf, w3) \<leftarrow> read_frame_loop 0 dht buf bit_in w2;
          if s3 \<noteq> DHT_OK then Some (DHT_ERR_TIMEOUT, reading, w3) else
          if uint (buf ! 4) \<noteq>
             (uint (buf ! 0) + uint (buf ! 1) + uint (buf ! 2) + uint (buf ! 3)) AND 0xFF
          then Some (DHT_ERR_BADCHECKSUM, reading, w3) else
          Some (DHT_OK, parse_buffer reading buf, w3)
        }
      })"

subsection \<open>Describing runs of the driver\<close>

text \<open>
  \<open>polled dht k w\<close> is the world after \<open>k\<close> full rounds of a busy-wait loop, each one
  level read and one timer read. \<open>keeps_waiting w lvl uptime_entry timeout_usec li ti k\<close>
  says that the loop goes round \<open>k\<close> times when its level reads start at index \<open>li\<close> and
  its timer reads at index \<open>ti\<close>: each level read gives \<open>lvl\<close> and each elapsed time is
  below the bound. \<open>advanced w g l t w'\<close> says that \<open>w'\<close> is \<open>w\<close> after \<open>g\<close> GPIO
  writes, \<open>l\<close> level reads and \<open>t\<close> timer reads. \<open>boot_world\<close> is a world in which no
  call has been made. \<open>request_calls dht\<close> lists the calls of \<^verbatim>\<open>dht_request_readings\<close> in
  the order of the program, and \<open>request_world dht n w\<close> is the world \<open>w\<close> after the
  request has made its first \<open>n\<close> GPIO writes, the delays before them, and no other call:
  these are the first 1, 2, 4 or 6 calls of the list.
\<close>

fun polled :: "dht_sensor \<Rightarrow> nat \<Rightarrow> world \<Rightarrow> world" where
  "polled dht 0 w = w"
| "polled dht (Suc k) w = polled dht k (snd (esp_timer_get_time (snd (gpio_get_level w dht))))"

definition keeps_waiting :: "world \<Rightarrow> int \<Rightarrow> int \<Rightarrow> int \<Rightarrow> nat \<Rightarrow> nat \<Rightarrow> nat \<Rightarrow> bool" where
  "keeps_waiting w lvl uptime_entry timeout_usec li ti k \<longleftrightarrow>
     (\<forall>j\<in>{0..<k}. line_levels w (li + j) = lvl \<and>
                   timer_values w (ti + j) - uptime_entry < timeout_usec)"

definition advanced :: "world \<Rightarrow> nat \<Rightarrow> nat \<Rightarrow> nat \<Rightarrow> world \<Rightarrow> bool" where
  "advanced w g l t w' \<longleftrightarrow>
     gpio_results w' = gpio_results w \<and> line_levels w' = line_levels w \<and>
     timer_values w' = timer_values w \<and> gpio_calls w' = gpio_calls w + g \<and>
     level_calls w' = level_calls w + l \<and> timer_calls w' = timer_calls w + t"

definition boot_world :: "(nat \<Rightarrow> int) \<Rightarrow> (nat \<Rightarrow> int) \<Rightarrow> (nat \<Rightarrow> int) \<Rightarrow> world" where
  "boot_world g l t =
     \<lparr>gpio_results = g, line_levels = l, timer_values = t,
      gpio_calls = 0, level_calls = 0, timer_calls = 0, trace = []\<rparr>"

definition request_calls :: "dht_sensor \<Rightarrow> call list" where
  "request_calls dht =
     [Set_direction dht GPIO_MODE_OUTPUT, Set_level dht 0, Delay_us 3000,
      Set_level dht 1, Delay_us 20, Set_direction dht GPIO_MODE_INPUT]"

definition request_world :: "dht_sensor \<Rightarrow> nat \<Rightarrow> world \<Rightarrow> world" where
  "request_world dht n w =
     w\<lparr>gpio_calls := gpio_calls w + n,
       trace := rev (take ([0, 1, 2, 4, 6] ! n) (request_calls dht)) @ trace w\<rparr>"

subsection \<open>Frame assembly as the specification words it\<close>

text \<open>
  \<open>bit_sequence n dht w\<close> calls the bit decoder up to \<open>n\<close> times in a row. The first
  \<^verbatim>\<open>DHT_ERR_TIMEOUT\<close> abandons the sequence at once; after every bit read with success
  it waits the settle time of 10 microseconds. The result is the list of the bits read,
  the status and the world. \<open>byte_of_bits\<close> puts the bit with index \<open>bit_index\<close> of eight
  bits at position \<open>7 - bit_index\<close>. \<open>frame_of_bits\<close> is the buffer of five bytes: byte
  \<open>j\<close> is made of bits \<open>8 * j\<close> to \<open>8 * j + 7\<close> when all of them were read, and is zero
  otherwise. \<open>place_bits\<close> and \<open>stored\<close> describe the two loops of \<^verbatim>\<open>dht_read\<close> part way
  through.
\<close>

fun bit_sequence ::
  "nat \<Rightarrow> dht_sensor \<Rightarrow> world \<Rightarrow> (bool list \<times> dht_retval \<times> world) option"
where
  "bit_sequence 0 dht w = Some ([], DHT_OK, w)"
| "bit_sequence (Suc n) dht w =
     do {
       (s, b, w1) \<leftarrow> dht_read_bit w dht False;
       if s \<noteq> DHT_OK then Some ([], DHT_ERR_TIMEOUT, w1) else
       do {
         (bs, s', w2) \<leftarrow> bit_sequence n dht (ets_delay_us w1 10);
         Some (b # bs, s', w2)
       }
     }"

definition byte_of_bits :: "bool list \<Rightarrow> 8 word" where
  "byte_of_bits bs =
     fold (\<lambda>bit_index byte. if bs ! bit_index then byte OR push_bit (7 - bit_index) 1 else byte)
       [0..<8] 0"

definition frame_of_bits :: "bool list \<Rightarrow> 8 word list" where
  "frame_of_bits bs =
     map (\<lambda>j. if 8 * Suc j \<le> length bs then byte_of_bits (take 8 (drop (8 * j) bs)) else 0)
       [0..<5]"

fun place_bits :: "nat \<Rightarrow> bool list \<Rightarrow> 8 word" where
  "place_bits n [] = 0"
| "place_bits n (b # bs) = (if b then push_bit (n - 1) 1 else 0) OR place_bits (n - 1) bs"

definition stored :: "nat \<Rightarrow> 8 word list \<Rightarrow> bool list \<Rightarrow> 8 word list" where
  "stored i buf bs =
     map (\<lambda>j. if j < i then buf ! j
              else if 8 * Suc (j - i) \<le> length bs
                then byte_of_bits (take 8 (drop (8 * (j - i)) bs))
                else buf ! j) [0..<5]"

subsection \<open>A simulated sensor\<close>

text \<open>
  \<open>sensor_world frame\<close> is a world in which every GPIO write succeeds and a sensor sends
  the five bytes of \<open>frame\<close>, most significant bit first: the driver sees the line low,
  high, high, low in the handshake and in every bit, at the times \<open>sensor_times\<close>; a 0 bit
  holds the line high for 30 microseconds and a 1 bit for 70. \<open>sensor_at bits i w\<close> says
  that \<open>w\<close> is this world just before bit \<open>i\<close> is read.
\<close>

definition bits_of_byte :: "8 word \<Rightarrow> bool list" where
  "bits_of_byte b = map (bit b) [7, 6, 5, 4, 3, 2, 1, 0]"

definition sensor_levels :: "nat \<Rightarrow> int" where
  "sensor_levels k = (if k mod 4 = 1 \<or> k mod 4 = 2 then 1 else 0)"

definition sensor_times :: "bool list \<Rightarrow> nat \<Rightarrow> int" where
  "sensor_times bits k =
     (if k < 4 then 40 * int k
      else let i = (k - 4) div 5; j = (k - 4) mod 5; T = 160 + 130 * int i
           in if j < 3 then T + 25 * int j
              else if j = 3 then T + 65
              else T + 50 + (if i < length bits \<and> bits ! i then 70 else 30))"

definition sensor_world :: "8 word list \<Rightarrow> world" where
  "sensor_world frame =
     boot_world (\<lambda>k. ESP_OK) sensor_levels (sensor_times (concat (map bits_of_byte frame)))"

definition sensor_at :: "bool list \<Rightarrow> nat \<Rightarrow> world \<Rightarrow> bool" where
  "sensor_at bits i w \<longleftrightarrow>
     line_levels w = sensor_levels \<and> timer_values w = sensor_times bits \<and>
     level_calls w = 4 * Suc i \<and> timer_calls w = 4 + 5 * i"

subsection \<open>Observing a call of \<^verbatim>\<open>dht_read\<close>\<close>

text \<open>
  \<open>zero_reading\<close> is the reading after \<^verbatim>\<open>memset(reading, 0x00, sizeof(dht_reading))\<close>.
  \<open>assembled_frame w dht\<close> is the content of \<^verbatim>\<open>buf\<close> when \<^verbatim>\<open>dht_read\<close>, called in the
  world \<open>w\<close>, comes to its checksum test: the request, the handshake and all 40 bit
  reads have succeeded. \<open>status_of\<close> and \<open>reading_of\<close> take the status and the reading
  from the result of a call. \<open>checksum_matches buf\<close> is the equation of the
  specification, the fifth byte equal to the sum of the first four modulo 256.
\<close>

definition zero_reading :: dht_reading where
  "zero_reading = \<lparr>temperature = 0, humidity = 0, checksum = 0x00\<rparr>"

definition assembled_frame :: "world \<Rightarrow> dht_sensor \<Rightarrow> 8 word list option" where
  "assembled_frame w dht =
     (let (s1, w1) = dht_request_readings w dht in
      if s1 \<noteq> DHT_OK then None else
      do {
        (s2, w2) \<leftarrow> dht_await_data w1 dht;
        if s2 \<noteq> DHT_OK then None else
        do {
          (s3, buf, w3) \<leftarrow> read_frame_loop 0 dht (replicate DHT_BYTES_PER_READ 0x00) False w2;
          if s3 \<noteq> DHT_OK then None else Some buf
        }
      })"

definition status_of :: "(dht_retval \<times> dht_reading \<times> world) option \<Rightarrow> dht_retval option" where
  "status_of r = map_option fst r"

definition reading_of :: "(dht_retval \<times> dht_reading \<times> world) option \<Rightarrow> dht_reading option" where
  "reading_of r = map_option (fst \<circ> snd) r"

definition checksum_matches :: "8 word list \<Rightarrow> bool" where
  "checksum_matches buf \<longleftrightarrow>
     unat (buf ! 4) = (unat (buf ! 0) + unat (buf ! 1) + unat (buf ! 2) + unat (buf ! 3)) mod 256"

section \<open>Properties\<close>

subsection \<open>The environment and the busy-wait loop\<close>

lemma polled_fields [simp]:
  "gpio_results (polled dht k w) = gpio_results w"
  "line_levels (polled dht k w) = line_levels w"
  "timer_values (polled dht k w) = timer_values w"
  "gpio_calls (polled dht k w) = gpio_calls w"
  "level_calls (polled dht k w) = level_calls w + k"
  "timer_calls (polled dht k w) = timer_calls w + k"
  by (induction k arbitrary: w; simp add: gpio_get_level_def esp_timer_get_time_def)+

lemma get_level_fields [simp]:
  "fst (gpio_get_level w dht) = line_levels w (level_calls w)"
  "gpio_results (snd (gpio_get_level w dht)) = gpio_results w"
  "line_levels (snd (gpio_get_level w dht)) = line_levels w"
  "timer_values (snd (gpio_get_level w dht)) = timer_values w"
  "gpio_calls (snd (gpio_get_level w dht)) = gpio_calls w"
  "level_calls (snd (gpio_get_level w dht)) = Suc (level_calls w)"
  "timer_calls (snd (gpio_get_level w dht)) = timer_calls w"
  by (simp_all add: gpio_get_level_def)

lemma get_time_fields [simp]:
  "fst (esp_timer_get_time w) = timer_values w (timer_calls w)"
  "gpio_results (snd (esp_timer_get_time w)) = gpio_results w"
  "line_levels (snd (esp_timer_get_time w)) = line_levels w"
  "timer_values (snd (esp_timer_get_time w)) = timer_values w"
  "gpio_calls (snd (esp_timer_get_time w)) = gpio_calls w"
  "level_calls (snd (esp_timer_get_time w)) = level_calls w"
  "timer_calls (snd (esp_timer_get_time w)) = Suc (timer_calls w)"
  by (simp_all add: esp_timer_get_time_def)

lemma delay_fields [simp]:
  "gpio_results (ets_delay_us w us) = gpio_results w"
  "line_levels (ets_delay_us w us) = line_levels w"
  "timer_values (ets_delay_us w us) = timer_values w"
  "gpio_calls (ets_delay_us w us) = gpio_calls w"
  "level_calls (ets_delay_us w us) = level_calls w"
  "timer_calls (ets_delay_us w us) = timer_calls w"
  by (simp_all add: ets_delay_us_def)

lemma wait_step:
  "wait_while_level dht lvl entry timeout w =
     (if line_levels w (level_calls w) = lvl then
        if timeout \<le> timer_values w (timer_calls w) - entry
        then Some (DHT_ERR_TIMEOUT, snd (esp_timer_get_time (snd (gpio_get_level w dht))))
        else wait_while_level dht lvl entry timeout
               (snd (esp_timer_get_time (snd (gpio_get_level w dht))))
      else Some (DHT_OK, snd (gpio_get_level w dht)))"
  by (subst wait_while_level.simps) (simp add: split_beta)

lemma keeps_waiting_iff:
  "keeps_waiting w lvl entry timeout li ti k \<longleftrightarrow>
     (\<forall>j<k. line_levels w (li + j) = lvl \<and> timer_values w (ti + j) - entry < timeout)"
  by (auto simp: keeps_waiting_def)

lemma keeps_waiting_0 [simp]: "keeps_waiting w lvl entry timeout li ti 0"
  by (simp add: keeps_waiting_iff)

lemma keeps_waiting_Suc:
  "keeps_waiting w lvl entry timeout li ti (Suc k) \<longleftrightarrow>
     line_levels w li = lvl \<and> timer_values w ti - entry < timeout \<and>
     keeps_waiting w lvl entry timeout (Suc li) (Suc ti) k"
proof -
  have "(\<forall>j<Suc k. P j) \<longleftrightarrow> P 0 \<and> (\<forall>j<k. P (Suc j))" for P
    by (metis less_Suc_eq_0_disj)
  then show ?thesis
    by (simp add: keeps_waiting_iff)
qed

lemma keeps_waiting_cong:
  "line_levels w' = line_levels w \<Longrightarrow> timer_values w' = timer_values w \<Longrightarrow>
   keeps_waiting w' lvl entry timeout li ti k = keeps_waiting w lvl entry timeout li ti k"
  by (simp add: keeps_waiting_iff)

lemma wait_polled:
  "keeps_waiting w lvl entry timeout (level_calls w) (timer_calls w) k \<Longrightarrow>
   wait_while_level dht lvl entry timeout w =
   wait_while_level dht lvl entry timeout (polled dht k w)"
proof (induction k arbitrary: w)
  case 0
  show ?case by simp
next
  case (Suc k)
  let ?w2 = "snd (esp_timer_get_time (snd (gpio_get_level w dht)))"
  from Suc.prems have now: "line_levels w (level_calls w) = lvl"
    "timer_values w (timer_calls w) - entry < timeout"
    and later: "keeps_waiting ?w2 lvl entry timeout (level_calls ?w2) (timer_calls ?w2) k"
    by (simp_all add: keeps_waiting_Suc keeps_waiting_cong [of ?w2 w])
  have "wait_while_level dht lvl entry timeout w = wait_while_level dht lvl entry timeout ?w2"
    using now by (subst wait_step) simp
  also have "\<dots> = wait_while_level dht lvl entry timeout (polled dht k ?w2)"
    using later by (rule Suc.IH)
  finally show ?case by simp
qed

lemma wait_exit_ok:
  assumes "keeps_waiting w lvl entry timeout (level_calls w) (timer_calls w) k"
    and "line_levels w (level_calls w + k) \<noteq> lvl"
  shows "wait_while_level dht lvl entry timeout w =
         Some (DHT_OK, snd (gpio_get_level (polled dht k w) dht))"
  using assms(2) by (simp add: wait_polled [OF assms(1), of dht] wait_step [of _ _ _ _ "polled dht k w"])

lemma wait_exit_timeout:
  assumes "keeps_waiting w lvl entry timeout (level_calls w) (timer_calls w) k"
    and "line_levels w (level_calls w + k) = lvl"
    and "timeout \<le> timer_values w (timer_calls w + k) - entry"
  shows "wait_while_level dht lvl entry timeout w =
         Some (DHT_ERR_TIMEOUT, snd (esp_timer_get_time (snd (gpio_get_level (polled dht k w) dht))))"
  using assms(2,3) by (simp add: wait_polled [OF assms(1), of dht] wait_step [of _ _ _ _ "polled dht k w"])

lemma wait_Some_cases:
  assumes "wait_while_level dht lvl entry timeout w = Some y"
  shows "\<exists>k. keeps_waiting w lvl entry timeout (level_calls w) (timer_calls w) k \<and>
           (line_levels w (level_calls w + k) \<noteq> lvl \<and>
              y = (DHT_OK, snd (gpio_get_level (polled dht k w) dht))
            \<or> line_levels w (level_calls w + k) = lvl \<and>
              timeout \<le> timer_values w (timer_calls w + k) - entry \<and>
              y = (DHT_ERR_TIMEOUT,
                   snd (esp_timer_get_time (snd (gpio_get_level (polled dht k w) dht)))))"
  using assms
proof (induction rule: wait_while_level.raw_induct [rotated 1, consumes 1, case_names step])
  case (step wait dht lvl entry timeout w y)
  let ?w2 = "snd (esp_timer_get_time (snd (gpio_get_level w dht)))"
  consider (ok) "line_levels w (level_calls w) \<noteq> lvl"
    | (timeout) "line_levels w (level_calls w) = lvl"
        "timeout \<le> timer_values w (timer_calls w) - entry"
    | (continue) "line_levels w (level_calls w) = lvl"
        "timer_values w (timer_calls w) - entry < timeout"
    by linarith
  then show ?case
  proof cases
    case ok
    with step(2) have "y = (DHT_OK, snd (gpio_get_level w dht))"
      by (simp add: split_beta)
    with ok show ?thesis
      by (intro exI [of _ 0]) simp
  next
    case timeout
    with step(2) have "y = (DHT_ERR_TIMEOUT, ?w2)"
      by (simp add: split_beta)
    with timeout show ?thesis
      by (intro exI [of _ 0]) simp
  next
    case continue
    with step(2) have "wait dht lvl entry timeout ?w2 = Some y"
      by (simp add: split_beta)
    from step(1) [OF this] obtain k where
      k: "keeps_waiting ?w2 lvl entry timeout (level_calls ?w2) (timer_calls ?w2) k"
      "line_levels ?w2 (level_calls ?w2 + k) \<noteq> lvl \<and>
              y = (DHT_OK, snd (gpio_get_level (polled dht k ?w2) dht))
            \<or> line_levels ?w2 (level_calls ?w2 + k) = lvl \<and>
              timeout \<le> timer_values ?w2 (timer_calls ?w2 + k) - entry \<and>
              y = (DHT_ERR_TIMEOUT,
                   snd (esp_timer_get_time (snd (gpio_get_level (polled dht k ?w2) dht))))"
      by blast
    have "keeps_waiting w lvl entry timeout (level_calls w) (timer_calls w) (Suc k)"
      using continue k(1) by (simp add: keeps_waiting_Suc keeps_waiting_cong [of ?w2 w])
    with k(2) show ?thesis
      by (intro exI [of _ "Suc k"]) simp
  qed
qed

lemma clock_increasing:
  "(\<forall>k. timer_values w k < timer_values w (Suc k)) \<Longrightarrow>
   timer_values w i + int j \<le> timer_values w (i + j)"
proof (induction j)
  case 0
  show ?case by simp
next
  case (Suc j)
  have "timer_values w (i + j) < timer_values w (Suc (i + j))"
    using Suc.prems by blast
  moreover have "timer_values w i + int j \<le> timer_values w (i + j)"
    using Suc.IH [OF Suc.prems] .
  ultimately show ?case by simp
qed

lemma wait_terminates:
  assumes clock: "\<forall>k. timer_values w k < timer_values w (Suc k)"
  shows "\<exists>k y. k \<le> nat (timeout - (timer_values w (timer_calls w) - entry)) \<and>
           keeps_waiting w lvl entry timeout (level_calls w) (timer_calls w) k \<and>
           wait_while_level dht lvl entry timeout w = Some y \<and>
           (line_levels w (level_calls w + k) \<noteq> lvl \<and>
              y = (DHT_OK, snd (gpio_get_level (polled dht k w) dht))
            \<or> line_levels w (level_calls w + k) = lvl \<and>
              timeout \<le> timer_values w (timer_calls w + k) - entry \<and>
              y = (DHT_ERR_TIMEOUT,
                   snd (esp_timer_get_time (snd (gpio_get_level (polled dht k w) dht)))))"
proof -
  define stops where "stops j \<longleftrightarrow> line_levels w (level_calls w + j) \<noteq> lvl \<or>
      timeout \<le> timer_values w (timer_calls w + j) - entry" for j
  define n where "n = nat (timeout - (timer_values w (timer_calls w) - entry))"
  have "stops n"
    using clock_increasing [OF clock, of "timer_calls w" n] unfolding stops_def n_def
    by (cases "timer_values w (timer_calls w) - entry \<le> timeout") auto
  define k where "k = (LEAST j. stops j)"
  have k: "stops k" and least: "\<And>j. j < k \<Longrightarrow> \<not> stops j" and bound: "k \<le> n"
    using \<open>stops n\<close> unfolding k_def
    by (auto intro: LeastI Least_le dest: not_less_Least)
  have run: "keeps_waiting w lvl entry timeout (level_calls w) (timer_calls w) k"
    unfolding keeps_waiting_iff using least by (auto simp: stops_def not_le)
  show ?thesis
  proof (cases "line_levels w (level_calls w + k) \<noteq> lvl")
    case True
    with run bound wait_exit_ok [OF run True, of dht] show ?thesis
      unfolding n_def by blast
  next
    case False
    then have lv: "line_levels w (level_calls w + k) = lvl" by simp
    with k have t: "timeout \<le> timer_values w (timer_calls w + k) - entry"
      by (simp add: stops_def)
    from run bound lv t wait_exit_timeout [OF run lv t, of dht] show ?thesis
      unfolding n_def by blast
  qed
qed

lemma boot_world_fields [simp]:
  "gpio_results (boot_world g l t) = g"
  "line_levels (boot_world g l t) = l"
  "timer_values (boot_world g l t) = t"
  "gpio_calls (boot_world g l t) = 0"
  "level_calls (boot_world g l t) = 0"
  "timer_calls (boot_world g l t) = 0"
  "trace (boot_world g l t) = []"
  by (simp_all add: boot_world_def)

lemma advanced_get_level_polled [simp]:
  "advanced w 0 (Suc k) k (snd (gpio_get_level (polled dht k w) dht))"
  by (simp add: advanced_def)

lemma advanced_get_time_polled [simp]:
  "advanced w 0 (Suc k) (Suc k) (snd (esp_timer_get_time (snd (gpio_get_level (polled dht k w) dht))))"
  by (simp add: advanced_def)

text \<open>
  C7. A busy-wait loop that has gone round \<open>k\<close> times returns \<^verbatim>\<open>DHT_OK\<close> at its next
  level read if that read differs from the level waited on, whatever the clock says, and
  then it has read the level \<open>k + 1\<close> times and the timer \<open>k\<close> times. If that level read
  still gives the level waited on and the elapsed time is at or beyond the bound
  (\<open>timeout_usec \<le> elapsed\<close>, so that \<open>elapsed = timeout_usec\<close> is a timeout), it returns
  \<^verbatim>\<open>DHT_ERR_TIMEOUT\<close>. Every return of the loop is of one of these two kinds.
\<close>

theorem busy_wait_exit:
  "(keeps_waiting w lvl uptime_entry timeout_usec (level_calls w) (timer_calls w) k \<longrightarrow>
      (line_levels w (level_calls w + k) \<noteq> lvl \<longrightarrow>
         (\<exists>w'. wait_while_level dht lvl uptime_entry timeout_usec w = Some (DHT_OK, w') \<and>
               level_calls w' = level_calls w + Suc k \<and>
               timer_calls w' = timer_calls w + k)) \<and>
      (line_levels w (level_calls w + k) = lvl \<and>
       timeout_usec \<le> timer_values w (timer_calls w + k) - uptime_entry \<longrightarrow>
         (\<exists>w'. wait_while_level dht lvl uptime_entry timeout_usec w =
                 Some (DHT_ERR_TIMEOUT, w') \<and>
               level_calls w' = level_calls w + Suc k \<and>
               timer_calls w' = timer_calls w + Suc k))) \<and>
   (\<forall>s w'. wait_while_level dht lvl uptime_entry timeout_usec w = Some (s, w') \<longrightarrow>
      (\<exists>n. keeps_waiting w lvl uptime_entry timeout_usec (level_calls w) (timer_calls w) n \<and>
           (s = DHT_OK \<and> line_levels w (level_calls w + n) \<noteq> lvl \<and>
              level_calls w' = level_calls w + Suc n \<and>
              timer_calls w' = timer_calls w + n \<or>
            s = DHT_ERR_TIMEOUT \<and> line_levels w (level_calls w + n) = lvl \<and>
              timeout_usec \<le> timer_values w (timer_calls w + n) - uptime_entry \<and>
              level_calls w' = level_calls w + Suc n \<and>
              timer_calls w' = timer_calls w + Suc n)))"
proof (intro conjI impI allI)
  assume run: "keeps_waiting w lvl uptime_entry timeout_usec (level_calls w) (timer_calls w) k"
    and "line_levels w (level_calls w + k) \<noteq> lvl"
  then show "\<exists>w'. wait_while_level dht lvl uptime_entry timeout_usec w = Some (DHT_OK, w') \<and>
               level_calls w' = level_calls w + Suc k \<and>
               timer_calls w' = timer_calls w + k"
    using wait_exit_ok [OF run, of dht] by simp
next
  assume run: "keeps_waiting w lvl uptime_entry timeout_usec (level_calls w) (timer_calls w) k"
    and "line_levels w (level_calls w + k) = lvl \<and>
       timeout_usec \<le> timer_values w (timer_calls w + k) - uptime_entry"
  then show "\<exists>w'. wait_while_level dht lvl uptime_entry timeout_usec w =
                 Some (DHT_ERR_TIMEOUT, w') \<and>
               level_calls w' = level_calls w + Suc k \<and>
               timer_calls w' = timer_calls w + Suc k"
    using wait_exit_timeout [OF run, of dht] by simp
next
  fix s w'
  assume "wait_while_level dht lvl uptime_entry timeout_usec w = Some (s, w')"
  from wait_Some_cases [OF this] obtain n where
    n: "keeps_waiting w lvl uptime_entry timeout_usec (level_calls w) (timer_calls w) n"
    "line_levels w (level_calls w + n) \<noteq> lvl \<and>
       (s, w') = (DHT_OK, snd (gpio_get_level (polled dht n w) dht))
     \<or> line_levels w (level_calls w + n) = lvl \<and>
       timeout_usec \<le> timer_values w (timer_calls w + n) - uptime_entry \<and>
       (s, w') = (DHT_ERR_TIMEOUT,
                 snd (esp_timer_get_time (snd (gpio_get_level (polled dht n w) dht))))"
    by blast
  from n(2) have "s = DHT_OK \<and> line_levels w (level_calls w + n) \<noteq> lvl \<and>
              level_calls w' = level_calls w + Suc n \<and>
              timer_calls w' = timer_calls w + n \<or>
            s = DHT_ERR_TIMEOUT \<and> line_levels w (level_calls w + n) = lvl \<and>
              timeout_usec \<le> timer_values w (timer_calls w + n) - uptime_entry \<and>
              level_calls w' = level_calls w + Suc n \<and>
              timer_calls w' = timer_calls w + Suc n"
    by auto
  with n(1) show "\<exists>n. keeps_waiting w lvl uptime_entry timeout_usec (level_calls w) (timer_calls w) n \<and>
           (s = DHT_OK \<and> line_levels w (level_calls w + n) \<noteq> lvl \<and>
              level_calls w' = level_calls w + Suc n \<and>
              timer_calls w' = timer_calls w + n \<or>
            s = DHT_ERR_TIMEOUT \<and> line_levels w (level_calls w + n) = lvl \<and>
              timeout_usec \<le> timer_values w (timer_calls w + n) - uptime_entry \<and>
              level_calls w' = level_calls w + Suc n \<and>
              timer_calls w' = timer_calls w + Suc n)"
    by blast
qed

theorem busy_wait_exit_witness:
  "map_option fst (wait_while_level 22 0 1000 90
      (boot_world (\<lambda>k. 0) (\<lambda>k. if k < 2 then 0 else 1) (\<lambda>k. 1000 + 30 * int k))) = Some DHT_OK \<and>
   map_option fst (wait_while_level 22 0 0 90
      (boot_world (\<lambda>k. 0) (\<lambda>k. 1) (\<lambda>k. 5000))) = Some DHT_OK \<and>
   map_option fst (wait_while_level 22 0 0 90
      (boot_world (\<lambda>k. 0) (\<lambda>k. 0) (\<lambda>k. 45 * int k))) = Some DHT_ERR_TIMEOUT"
proof -
  let ?a = "boot_world (\<lambda>k. 0) (\<lambda>k. if k < 2 then 0 else 1) (\<lambda>k. 1000 + 30 * int k)"
  let ?b = "boot_world (\<lambda>k. 0) (\<lambda>k. 1) (\<lambda>k. 5000)"
  let ?c = "boot_world (\<lambda>k. 0) (\<lambda>k. 0) (\<lambda>k. 45 * int k)"
  have a: "keeps_waiting ?a 0 1000 90 (level_calls ?a) (timer_calls ?a) 2"
    by (simp add: numeral_2_eq_2 keeps_waiting_Suc)
  have b: "keeps_waiting ?b 0 0 90 (level_calls ?b) (timer_calls ?b) 0"
    by simp
  have c: "keeps_waiting ?c 0 0 90 (level_calls ?c) (timer_calls ?c) 2"
    by (simp add: numeral_2_eq_2 keeps_waiting_Suc)
  show ?thesis
    using busy_wait_exit [of ?a 0 1000 90 2 22, THEN conjunct1, rule_format, OF a]
      busy_wait_exit [of ?b 0 0 90 0 22, THEN conjunct1, rule_format, OF b]
      busy_wait_exit [of ?c 0 0 90 2 22, THEN conjunct1, rule_format, OF c]
    by auto
qed

subsection \<open>Reading one bit\<close>

lemma advanced_refl [simp]: "advanced w 0 0 0 w"
  by (simp add: advanced_def)

lemma advanced_get_time [simp]: "advanced w 0 0 (Suc 0) (snd (esp_timer_get_time w))"
  by (simp add: advanced_def)

lemma advanced_delay [simp]: "advanced w 0 0 0 (ets_delay_us w us)"
  by (simp add: advanced_def)

lemma dht_read_bit_unfold:
  "dht_read_bit w dht b =
     (case wait_while_level dht 0 (timer_values w (timer_calls w)) 70 (snd (esp_timer_get_time w))
      of None \<Rightarrow> None
       | Some (s1, w2) \<Rightarrow>
           if s1 \<noteq> DHT_OK then Some (DHT_ERR_TIMEOUT, b, w2)
           else (case wait_while_level dht 1 (timer_values w2 (timer_calls w2)) 90
                        (snd (esp_timer_get_time w2))
                 of None \<Rightarrow> None
                  | Some (s2, w4) \<Rightarrow>
                      if s2 \<noteq> DHT_OK then Some (DHT_ERR_TIMEOUT, b, w4)
                      else Some (DHT_OK,
                                 40 \<le> timer_values w4 (timer_calls w4) -
                                        timer_values w2 (timer_calls w2),
                                 snd (esp_timer_get_time w4))))"
  by (simp add: dht_read_bit_def spec_us_in_data_bit_low_def spec_us_in_data_bit_high_def
      spec_us_bit_length_threshold_def split_beta Let_def not_less
      split: option.splits Option.bind_splits)

lemma read_bit_low_timeout:
  assumes "keeps_waiting w 0 (timer_values w (timer_calls w)) 70
             (level_calls w) (Suc (timer_calls w)) k1"
    and "line_levels w (level_calls w + k1) = 0"
    and "70 \<le> timer_values w (Suc (timer_calls w) + k1) - timer_values w (timer_calls w)"
  shows "\<exists>w'. dht_read_bit w dht b = Some (DHT_ERR_TIMEOUT, b, w') \<and>
              advanced w 0 (Suc k1) (k1 + 2) w'"
proof -
  let ?t0 = "timer_values w (timer_calls w)"
  let ?w1 = "snd (esp_timer_get_time w)"
  let ?w2 = "snd (esp_timer_get_time (snd (gpio_get_level (polled dht k1 ?w1) dht)))"
  have "wait_while_level dht 0 ?t0 70 ?w1 = Some (DHT_ERR_TIMEOUT, ?w2)"
    using assms by (intro wait_exit_timeout) (simp_all add: keeps_waiting_cong [of ?w1 w])
  then have "dht_read_bit w dht b = Some (DHT_ERR_TIMEOUT, b, ?w2)"
    by (simp add: dht_read_bit_unfold)
  moreover have "advanced w 0 (Suc k1) (k1 + 2) ?w2"
    by (simp add: advanced_def)
  ultimately show ?thesis by blast
qed

lemma read_bit_high:
  assumes low: "keeps_waiting w 0 (timer_values w (timer_calls w)) 70
             (level_calls w) (Suc (timer_calls w)) k1"
    and rise: "line_levels w (level_calls w + k1) \<noteq> 0"
    and high: "keeps_waiting w 1 (timer_values w (timer_calls w + k1 + 1)) 90
             (level_calls w + k1 + 1) (timer_calls w + k1 + 2) k2"
  shows "(line_levels w (level_calls w + k1 + 1 + k2) = 1 \<and>
          90 \<le> timer_values w (timer_calls w + k1 + 2 + k2) -
                 timer_values w (timer_calls w + k1 + 1) \<longrightarrow>
            (\<exists>w'. dht_read_bit w dht b = Some (DHT_ERR_TIMEOUT, b, w') \<and>
                  advanced w 0 (k1 + k2 + 2) (k1 + k2 + 3) w')) \<and>
         (line_levels w (level_calls w + k1 + 1 + k2) \<noteq> 1 \<longrightarrow>
            (\<exists>w'. dht_read_bit w dht b =
                    Some (DHT_OK,
                          40 \<le> timer_values w (timer_calls w + k1 + 2 + k2) -
                                 timer_values w (timer_calls w + k1 + 1), w') \<and>
                  advanced w 0 (k1 + k2 + 2) (k1 + k2 + 3) w'))"
proof -
  let ?t0 = "timer_values w (timer_calls w)"
  let ?t1 = "timer_values w (timer_calls w + k1 + 1)"
  let ?w1 = "snd (esp_timer_get_time w)"
  let ?w2 = "snd (gpio_get_level (polled dht k1 ?w1) dht)"
  let ?w3 = "snd (esp_timer_get_time ?w2)"
  let ?w4 = "snd (gpio_get_level (polled dht k2 ?w3) dht)"
  let ?w4' = "snd (esp_timer_get_time ?w4)"
  have 1: "wait_while_level dht 0 ?t0 70 ?w1 = Some (DHT_OK, ?w2)"
    using low rise by (intro wait_exit_ok) (simp_all add: keeps_waiting_cong [of ?w1 w])
  have kw: "keeps_waiting ?w3 1 ?t1 90 (level_calls ?w3) (timer_calls ?w3) k2"
    using high by (simp add: keeps_waiting_cong [of ?w3 w] ac_simps)
  have lv: "line_levels ?w3 (level_calls ?w3 + k2) = line_levels w (level_calls w + k1 + 1 + k2)"
    by (simp add: ac_simps)
  have tv: "timer_values ?w3 (timer_calls ?w3 + k2) = timer_values w (timer_calls w + k1 + 2 + k2)"
    by (simp add: ac_simps)
  show ?thesis
  proof (intro conjI impI)
    assume a: "line_levels w (level_calls w + k1 + 1 + k2) = 1 \<and>
          90 \<le> timer_values w (timer_calls w + k1 + 2 + k2) - ?t1"
    have "wait_while_level dht 1 ?t1 90 ?w3 = Some (DHT_ERR_TIMEOUT, ?w4')"
      using kw a lv tv by (intro wait_exit_timeout) simp_all
    with 1 have "dht_read_bit w dht b = Some (DHT_ERR_TIMEOUT, b, ?w4')"
      by (simp add: dht_read_bit_unfold ac_simps)
    moreover have "advanced w 0 (k1 + k2 + 2) (k1 + k2 + 3) ?w4'"
      by (simp add: advanced_def)
    ultimately show "\<exists>w'. dht_read_bit w dht b = Some (DHT_ERR_TIMEOUT, b, w') \<and>
                  advanced w 0 (k1 + k2 + 2) (k1 + k2 + 3) w'"
      by blast
  next
    assume a: "line_levels w (level_calls w + k1 + 1 + k2) \<noteq> 1"
    have "wait_while_level dht 1 ?t1 90 ?w3 = Some (DHT_OK, ?w4)"
      using kw a lv by (intro wait_exit_ok) simp_all
    with 1 have "dht_read_bit w dht b =
        Some (DHT_OK, 40 \<le> timer_values w (timer_calls w + k1 + 2 + k2) - ?t1,
              snd (esp_timer_get_time ?w4))"
      by (simp add: dht_read_bit_unfold ac_simps)
    moreover have "advanced w 0 (k1 + k2 + 2) (k1 + k2 + 3) (snd (esp_timer_get_time ?w4))"
      by (simp add: advanced_def)
    ultimately show "\<exists>w'. dht_read_bit w dht b =
                    Some (DHT_OK,
                          40 \<le> timer_values w (timer_calls w + k1 + 2 + k2) - ?t1, w') \<and>
                  advanced w 0 (k1 + k2 + 2) (k1 + k2 + 3) w'"
      by blast
  qed
qed

text \<open>
  C5. \<^verbatim>\<open>dht_read_bit\<close> waits while the line is low with the bound \<open>50 + 20 = 70\<close> and
  while it is high with the bound \<open>70 + 20 = 90\<close>. When the low wait goes round \<open>k1\<close>
  times and then times out, or ends and the high wait goes round \<open>k2\<close> times and then
  times out, the result is \<^verbatim>\<open>DHT_ERR_TIMEOUT\<close> and the caller's bit is left as it was.
  When both waits end, the result is \<^verbatim>\<open>DHT_OK\<close> and the bit is 1 exactly when the time
  from the start of the high wait to the timer read after it is at least 40.
\<close>

theorem dht_read_bit_timing:
  assumes "keeps_waiting w 0 (timer_values w (timer_calls w)) 70
             (level_calls w) (Suc (timer_calls w)) k1"
  shows "(line_levels w (level_calls w + k1) = 0 \<and>
          70 \<le> timer_values w (Suc (timer_calls w) + k1) - timer_values w (timer_calls w) \<longrightarrow>
            (\<exists>w'. dht_read_bit w dht b = Some (DHT_ERR_TIMEOUT, b, w'))) \<and>
         (line_levels w (level_calls w + k1) \<noteq> 0 \<and>
          keeps_waiting w 1 (timer_values w (timer_calls w + k1 + 1)) 90
             (level_calls w + k1 + 1) (timer_calls w + k1 + 2) k2 \<longrightarrow>
            (line_levels w (level_calls w + k1 + 1 + k2) = 1 \<and>
             90 \<le> timer_values w (timer_calls w + k1 + 2 + k2) -
                    timer_values w (timer_calls w + k1 + 1) \<longrightarrow>
               (\<exists>w'. dht_read_bit w dht b = Some (DHT_ERR_TIMEOUT, b, w'))) \<and>
            (line_levels w (level_calls w + k1 + 1 + k2) \<noteq> 1 \<longrightarrow>
               (\<exists>w'. dht_read_bit w dht b =
                       Some (DHT_OK,
                             40 \<le> timer_values w (timer_calls w + k1 + 2 + k2) -
                                    timer_values w (timer_calls w + k1 + 1), w'))))"
  using read_bit_low_timeout [OF assms, of dht b] read_bit_high [OF assms, of k2 dht b]
  by blast

theorem dht_read_bit_timing_witness:
  "map_option (\<lambda>(s, b, w). (s, b))
     (dht_read_bit (boot_world (\<lambda>k. 0) (\<lambda>k. if k = 1 \<or> k = 2 then 1 else 0)
        (\<lambda>k. if k < 4 then 1000 + 25 * int k else 1080)) 22 True) = Some (DHT_OK, False) \<and>
   map_option (\<lambda>(s, b, w). (s, b))
     (dht_read_bit (boot_world (\<lambda>k. 0) (\<lambda>k. if k = 1 \<or> k = 2 then 1 else 0)
        (\<lambda>k. if k < 4 then 1000 + 25 * int k else 1120)) 22 False) = Some (DHT_OK, True) \<and>
   map_option (\<lambda>(s, b, w). (s, b))
     (dht_read_bit (boot_world (\<lambda>k. 0) (\<lambda>k. 0) (\<lambda>k. 1000 + 35 * int k)) 22 True) =
     Some (DHT_ERR_TIMEOUT, True) \<and>
   map_option (\<lambda>(s, b, w). (s, b))
     (dht_read_bit (boot_world (\<lambda>k. 0) (\<lambda>k. if k = 0 then 0 else 1)
        (\<lambda>k. 1000 + 30 * int k)) 22 False) = Some (DHT_ERR_TIMEOUT, False)"
proof -
  let ?a = "boot_world (\<lambda>k. 0) (\<lambda>k. if k = 1 \<or> k = 2 then 1 else 0)
        (\<lambda>k. if k < 4 then 1000 + 25 * int k else 1080)"
  let ?b = "boot_world (\<lambda>k. 0) (\<lambda>k. if k = 1 \<or> k = 2 then 1 else 0)
        (\<lambda>k. if k < 4 then 1000 + 25 * int k else 1120)"
  let ?c = "boot_world (\<lambda>k. 0) (\<lambda>k. 0) (\<lambda>k. 1000 + 35 * int k)"
  let ?d = "boot_world (\<lambda>k. 0) (\<lambda>k. if k = 0 then 0 else 1) (\<lambda>k. 1000 + 30 * int k)"
  have a: "keeps_waiting ?a 0 (timer_values ?a (timer_calls ?a)) 70
             (level_calls ?a) (Suc (timer_calls ?a)) 1"
    by (simp add: keeps_waiting_Suc)
  have b: "keeps_waiting ?b 0 (timer_values ?b (timer_calls ?b)) 70
             (level_calls ?b) (Suc (timer_calls ?b)) 1"
    by (simp add: keeps_waiting_Suc)
  have c: "keeps_waiting ?c 0 (timer_values ?c (timer_calls ?c)) 70
             (level_calls ?c) (Suc (timer_calls ?c)) 1"
    by (simp add: keeps_waiting_Suc)
  have d: "keeps_waiting ?d 0 (timer_values ?d (timer_calls ?d)) 70
             (level_calls ?d) (Suc (timer_calls ?d)) 1"
    by (simp add: keeps_waiting_Suc)
  have a2: "keeps_waiting ?a 1 (timer_values ?a (timer_calls ?a + 1 + 1)) 90
             (level_calls ?a + 1 + 1) (timer_calls ?a + 1 + 2) 1"
    by (simp add: keeps_waiting_Suc)
  have b2: "keeps_waiting ?b 1 (timer_values ?b (timer_calls ?b + 1 + 1)) 90
             (level_calls ?b + 1 + 1) (timer_calls ?b + 1 + 2) 1"
    by (simp add: keeps_waiting_Suc)
  have d2: "keeps_waiting ?d 1 (timer_values ?d (timer_calls ?d + 1 + 1)) 90
             (level_calls ?d + 1 + 1) (timer_calls ?d + 1 + 2) 2"
    by (simp add: keeps_waiting_Suc numeral_2_eq_2)
  show ?thesis
    using dht_read_bit_timing [OF a, where dht = 22 and b = True and ?k2.0 = 1] a2
      dht_read_bit_timing [OF b, where dht = 22 and b = False and ?k2.0 = 1] b2
      dht_read_bit_timing [OF c, where dht = 22 and b = True]
      dht_read_bit_timing [OF d, where dht = 22 and b = False and ?k2.0 = 2] d2
    by auto
qed

subsection \<open>Assembling the frame\<close>

lemma dht_read_bit_indep:
  "dht_read_bit w dht b =
     map_option (\<lambda>(s, b', w'). (s, if s = DHT_OK then b' else b, w')) (dht_read_bit w dht False)"
  by (simp add: dht_read_bit_unfold split: option.splits)

lemma bit_sequence_length:
  "bit_sequence n dht w = Some (bs, s, w') \<Longrightarrow>
   s = DHT_OK \<and> length bs = n \<or> s = DHT_ERR_TIMEOUT \<and> length bs < n"
proof (induction n arbitrary: w bs s w')
  case 0
  then show ?case by simp
next
  case (Suc n)
  then show ?case
    by (fastforce split: Option.bind_splits if_splits)
qed

lemma bit_sequence_add:
  "bit_sequence (m + n) dht w =
     (case bit_sequence m dht w of
        None \<Rightarrow> None
      | Some (bs, s, w1) \<Rightarrow>
          if s \<noteq> DHT_OK then Some (bs, s, w1)
          else map_option (\<lambda>(bs', s', w2). (bs @ bs', s', w2)) (bit_sequence n dht w1))"
proof (induction m arbitrary: w)
  case 0
  show ?case by (simp add: option.map_id split_beta)
next
  case (Suc m)
  show ?case
    by (auto simp: Suc split: option.splits Option.bind_splits)
qed

lemma read_byte_loop_bits:
  "read_byte_loop n dht byte_in b w =
     (case bit_sequence n dht w of
        None \<Rightarrow> None
      | Some (bs, s, w') \<Rightarrow>
          Some (s, byte_in OR place_bits n bs, (if bs = [] then b else last bs), w'))"
proof (induction n arbitrary: byte_in b w)
  case 0
  show ?case by simp
next
  case (Suc n)
  show ?case
    unfolding read_byte_loop.simps bit_sequence.simps
    by (subst dht_read_bit_indep)
      (auto simp: Suc measured_us_max_transition_t_def word_bw_assocs
        split: option.splits Option.bind_splits)
qed

lemma upt_8: "[0..<8] = [0, 1, 2, 3, 4, 5, 6, 7]"
  by code_simp

lemma byte_of_bits_place:
  assumes "length bs = 8"
  shows "byte_of_bits bs = place_bits 8 bs"
proof -
  from assms obtain b0 b1 b2 b3 b4 b5 b6 b7 where "bs = [b0, b1, b2, b3, b4, b5, b6, b7]"
    by (auto simp: eval_nat_numeral length_Suc_conv)
  then show ?thesis
    by (simp add: byte_of_bits_def upt_8 word_bw_assocs word_bw_comms word_bw_lcs)
qed

lemma stored_none:
  assumes "length buf = 5" and "length bs < 8"
  shows "stored i buf bs = buf"
proof -
  have "stored i buf bs = map ((!) buf) [0..<length buf]"
    unfolding stored_def using assms by (intro map_cong) auto
  then show ?thesis by (simp add: map_nth)
qed

lemma stored_step:
  assumes "length buf = 5" and "i < 5" and "length bs1 = 8"
  shows "stored (Suc i) (buf[i := byte_of_bits bs1]) bs = stored i buf (bs1 @ bs)"
  unfolding stored_def
proof (intro map_cong refl)
  fix j assume "j \<in> set [0..<5]"
  then have j: "j < 5" by simp
  consider "j < i" | "j = i" | "i < j" by linarith
  then show "(if j < Suc i then buf[i := byte_of_bits bs1] ! j
         else if 8 * Suc (j - Suc i) \<le> length bs
           then byte_of_bits (take 8 (drop (8 * (j - Suc i)) bs))
           else buf[i := byte_of_bits bs1] ! j) =
        (if j < i then buf ! j
         else if 8 * Suc (j - i) \<le> length (bs1 @ bs)
           then byte_of_bits (take 8 (drop (8 * (j - i)) (bs1 @ bs)))
           else buf ! j)"
  proof cases
    case 1
    then show ?thesis by simp
  next
    case 2
    then show ?thesis using assms by simp
  next
    case 3
    then have "8 * (j - i) = 8 + 8 * (j - Suc i)" by simp
    with 3 show ?thesis using assms by simp
  qed
qed

lemma read_frame_loop_bits:
  assumes "i + d = 5" and "length buf = 5"
  shows "read_frame_loop i dht buf b w =
         map_option (\<lambda>(bs, s, w'). (s, stored i buf bs, w')) (bit_sequence (8 * d) dht w)"
  using assms
proof (induction d arbitrary: i buf b w)
  case 0
  then have "stored i buf [] = buf" by (intro stored_none) simp_all
  with 0 show ?case
    by (subst read_frame_loop.simps) (simp add: DHT_BYTES_PER_READ_def)
next
  case (Suc d)
  then have i: "i < 5" "Suc i + d = 5" by simp_all
  have split8: "bit_sequence (8 * Suc d) dht w = bit_sequence (8 + 8 * d) dht w"
    by simp
  show ?case
  proof (cases "bit_sequence 8 dht w")
    case None
    then show ?thesis
      unfolding split8 bit_sequence_add using i
      by (subst read_frame_loop.simps) (simp add: DHT_BYTES_PER_READ_def read_byte_loop_bits)
  next
    case (Some r)
    obtain bs1 s w1 where r: "r = (bs1, s, w1)" by (cases r)
    from bit_sequence_length [OF Some [unfolded r]]
    consider (ok) "s = DHT_OK" "length bs1 = 8" | (timeout) "s = DHT_ERR_TIMEOUT" "length bs1 < 8"
      by blast
    then show ?thesis
    proof cases
      case timeout
      with Some r Suc.prems stored_none [of buf bs1 i] show ?thesis
        unfolding split8 bit_sequence_add using i
        by (subst read_frame_loop.simps) (simp add: DHT_BYTES_PER_READ_def read_byte_loop_bits)
    next
      case ok
      have "read_frame_loop i dht buf b w =
          read_frame_loop (Suc i) dht (buf[i := byte_of_bits bs1]) (last bs1) w1"
        using Some r ok i
        by (subst read_frame_loop.simps)
          (auto simp: DHT_BYTES_PER_READ_def read_byte_loop_bits byte_of_bits_place)
      also have "\<dots> = map_option (\<lambda>(bs, s, w'). (s, stored (Suc i) (buf[i := byte_of_bits bs1]) bs, w'))
          (bit_sequence (8 * d) dht w1)"
        using i Suc.prems by (intro Suc.IH) simp_all
      also have "\<dots> = map_option (\<lambda>(bs, s, w'). (s, stored i buf (bs1 @ bs), w'))
          (bit_sequence (8 * d) dht w1)"
        using stored_step [OF Suc.prems(2) i(1) ok(2)] by simp
      finally have loop: "read_frame_loop i dht buf b w =
          map_option (\<lambda>(bs, s, w'). (s, stored i buf (bs1 @ bs), w'))
            (bit_sequence (8 * d) dht w1)" .
      have "bit_sequence (8 * Suc d) dht w =
          map_option (\<lambda>(bs', s', w2). (bs1 @ bs', s', w2)) (bit_sequence (8 * d) dht w1)"
        unfolding split8 bit_sequence_add using Some r ok by simp
      then have "map_option (\<lambda>(bs, s, w'). (s, stored i buf bs, w'))
            (bit_sequence (8 * Suc d) dht w) =
          map_option (\<lambda>(bs, s, w'). (s, stored i buf (bs1 @ bs), w'))
            (bit_sequence (8 * d) dht w1)"
        by (cases "bit_sequence (8 * d) dht w1") auto
      with loop show ?thesis by simp
    qed
  qed
qed

lemma stored_frame: "stored 0 (replicate 5 0) bs = frame_of_bits bs"
  unfolding stored_def frame_of_bits_def by (intro map_cong) auto

subsection \<open>The request, the handshake and the simulated sensor\<close>

lemma dht_await_data_unfold:
  "dht_await_data w dht =
     (case wait_while_level dht 0 (timer_values w (timer_calls w)) 90 (snd (esp_timer_get_time w))
      of None \<Rightarrow> None
       | Some (s1, w2) \<Rightarrow>
           if s1 \<noteq> DHT_OK then Some (DHT_ERR_TIMEOUT, w2)
           else (case wait_while_level dht 1 (timer_values w2 (timer_calls w2)) 90
                        (snd (esp_timer_get_time w2))
                 of None \<Rightarrow> None
                  | Some (s2, w4) \<Rightarrow>
                      if s2 \<noteq> DHT_OK then Some (DHT_ERR_TIMEOUT, w4) else Some (DHT_OK, w4)))"
  by (simp add: dht_await_data_def spec_us_in_ready_signal_half_def split_beta Let_def
      split: option.splits Option.bind_splits)

lemma await_high:
  assumes low: "keeps_waiting w 0 (timer_values w (timer_calls w)) 90
             (level_calls w) (Suc (timer_calls w)) k1"
    and rise: "line_levels w (level_calls w + k1) \<noteq> 0"
    and high: "keeps_waiting w 1 (timer_values w (timer_calls w + k1 + 1)) 90
             (level_calls w + k1 + 1) (timer_calls w + k1 + 2) k2"
  shows "(line_levels w (level_calls w + k1 + 1 + k2) = 1 \<and>
          90 \<le> timer_values w (timer_calls w + k1 + 2 + k2) -
                 timer_values w (timer_calls w + k1 + 1) \<longrightarrow>
            (\<exists>w'. dht_await_data w dht = Some (DHT_ERR_TIMEOUT, w') \<and>
                  advanced w 0 (k1 + k2 + 2) (k1 + k2 + 3) w')) \<and>
         (line_levels w (level_calls w + k1 + 1 + k2) \<noteq> 1 \<longrightarrow>
            (\<exists>w'. dht_await_data w dht = Some (DHT_OK, w') \<and>
                  advanced w 0 (k1 + k2 + 2) (k1 + k2 + 2) w'))"
proof -
  let ?t0 = "timer_values w (timer_calls w)"
  let ?t1 = "timer_values w (timer_calls w + k1 + 1)"
  let ?w1 = "snd (esp_timer_get_time w)"
  let ?w2 = "snd (gpio_get_level (polled dht k1 ?w1) dht)"
  let ?w3 = "snd (esp_timer_get_time ?w2)"
  let ?w4 = "snd (gpio_get_level (polled dht k2 ?w3) dht)"
  let ?w4' = "snd (esp_timer_get_time ?w4)"
  have 1: "wait_while_level dht 0 ?t0 90 ?w1 = Some (DHT_OK, ?w2)"
    using low rise by (intro wait_exit_ok) (simp_all add: keeps_waiting_cong [of ?w1 w])
  have kw: "keeps_waiting ?w3 1 ?t1 90 (level_calls ?w3) (timer_calls ?w3) k2"
    using high by (simp add: keeps_waiting_cong [of ?w3 w] ac_simps)
  have lv: "line_levels ?w3 (level_calls ?w3 + k2) = line_levels w (level_calls w + k1 + 1 + k2)"
    by (simp add: ac_simps)
  have tv: "timer_values ?w3 (timer_calls ?w3 + k2) = timer_values w (timer_calls w + k1 + 2 + k2)"
    by (simp add: ac_simps)
  show ?thesis
  proof (intro conjI impI)
    assume a: "line_levels w (level_calls w + k1 + 1 + k2) = 1 \<and>
          90 \<le> timer_values w (timer_calls w + k1 + 2 + k2) - ?t1"
    have "wait_while_level dht 1 ?t1 90 ?w3 = Some (DHT_ERR_TIMEOUT, ?w4')"
      using kw a lv tv by (intro wait_exit_timeout) simp_all
    with 1 have "dht_await_data w dht = Some (DHT_ERR_TIMEOUT, ?w4')"
      by (simp add: dht_await_data_unfold ac_simps)
    moreover have "advanced w 0 (k1 + k2 + 2) (k1 + k2 + 3) ?w4'"
      by (simp add: advanced_def)
    ultimately show "\<exists>w'. dht_await_data w dht = Some (DHT_ERR_TIMEOUT, w') \<and>
                  advanced w 0 (k1 + k2 + 2) (k1 + k2 + 3) w'"
      by blast
  next
    assume a: "line_levels w (level_calls w + k1 + 1 + k2) \<noteq> 1"
    have "wait_while_level dht 1 ?t1 90 ?w3 = Some (DHT_OK, ?w4)"
      using kw a lv by (intro wait_exit_ok) simp_all
    with 1 have "dht_await_data w dht = Some (DHT_OK, ?w4)"
      by (simp add: dht_await_data_unfold ac_simps)
    moreover have "advanced w 0 (k1 + k2 + 2) (k1 + k2 + 2) ?w4"
      by (simp add: advanced_def)
    ultimately show "\<exists>w'. dht_await_data w dht = Some (DHT_OK, w') \<and>
                  advanced w 0 (k1 + k2 + 2) (k1 + k2 + 2) w'"
      by blast
  qed
qed

lemma sensor_levels_at:
  "sensor_levels (4 * i) = 0" "sensor_levels (4 * i + 1) = 1"
  "sensor_levels (4 * i + 2) = 1" "sensor_levels (4 * i + 3) = 0"
proof -
  have "(4 * i) mod 4 = 0" "(4 * i + 1) mod 4 = 1" "(4 * i + 2) mod 4 = 2" "(4 * i + 3) mod 4 = 3"
    by presburger+
  then show "sensor_levels (4 * i) = 0" "sensor_levels (4 * i + 1) = 1"
    "sensor_levels (4 * i + 2) = 1" "sensor_levels (4 * i + 3) = 0"
    by (simp_all add: sensor_levels_def)
qed

lemma sensor_times_at:
  assumes "j < 5"
  shows "sensor_times bits (4 + 5 * i + j) =
           (if j < 3 then 160 + 130 * int i + 25 * int j
            else if j = 3 then 160 + 130 * int i + 65
            else 160 + 130 * int i + 50 + (if i < length bits \<and> bits ! i then 70 else 30))"
proof -
  have "(4 + 5 * i + j - 4) div 5 = i" "(4 + 5 * i + j - 4) mod 5 = j"
    using assms by simp_all
  then show ?thesis
    by (simp add: sensor_times_def Let_def)
qed

lemma sensor_bit:
  assumes "sensor_at bits i w" and "i < length bits"
  shows "\<exists>w'. dht_read_bit w dht b = Some (DHT_OK, bits ! i, w') \<and>
              sensor_at bits (Suc i) (ets_delay_us w' us)"
proof -
  from assms(1) have w: "line_levels w = sensor_levels" "timer_values w = sensor_times bits"
    "level_calls w = 4 * Suc i" "timer_calls w = 4 + 5 * i"
    by (simp_all add: sensor_at_def)
  have lv: "line_levels w (level_calls w) = 0" "line_levels w (level_calls w + 1) = 1"
    "line_levels w (level_calls w + 2) = 1" "line_levels w (level_calls w + 3) = 0"
    unfolding w by (rule sensor_levels_at)+
  have tv: "timer_values w (timer_calls w) = 160 + 130 * int i"
    "timer_values w (timer_calls w + 1) = 185 + 130 * int i"
    "timer_values w (timer_calls w + 2) = 210 + 130 * int i"
    "timer_values w (timer_calls w + 3) = 225 + 130 * int i"
    "timer_values w (timer_calls w + 4) = 210 + 130 * int i + (if bits ! i then 70 else 30)"
    unfolding w using assms(2) sensor_times_at [of 0 bits i] sensor_times_at [of 1 bits i]
      sensor_times_at [of 2 bits i] sensor_times_at [of 3 bits i] sensor_times_at [of 4 bits i]
    by simp_all
  have low: "keeps_waiting w 0 (timer_values w (timer_calls w)) 70
             (level_calls w) (Suc (timer_calls w)) 1"
    using lv tv by (simp add: keeps_waiting_Suc)
  have rise: "line_levels w (level_calls w + 1) \<noteq> 0"
    using lv by simp
  have high: "keeps_waiting w 1 (timer_values w (timer_calls w + 1 + 1)) 90
             (level_calls w + 1 + 1) (timer_calls w + 1 + 2) 1"
    using lv tv by (simp add: keeps_waiting_Suc numeral_2_eq_2 numeral_3_eq_3)
  have fall: "line_levels w (level_calls w + 1 + 1 + 1) \<noteq> 1"
    using lv by (simp add: numeral_3_eq_3)
  from read_bit_high [OF low rise high, of dht b] fall
  obtain w' where w': "dht_read_bit w dht b =
      Some (DHT_OK, 40 \<le> timer_values w (timer_calls w + 1 + 2 + 1) -
                           timer_values w (timer_calls w + 1 + 1), w')"
    "advanced w 0 (1 + 1 + 2) (1 + 1 + 3) w'"
    by blast
  have idx: "timer_calls w + 1 + 2 + 1 = timer_calls w + 4"
    "timer_calls w + 1 + 1 = timer_calls w + 2"
    by simp_all
  have "(40 \<le> timer_values w (timer_calls w + 1 + 2 + 1) -
                           timer_values w (timer_calls w + 1 + 1)) = bits ! i"
    unfolding idx tv by simp
  moreover have "sensor_at bits (Suc i) (ets_delay_us w' us)"
    using w'(2) w by (simp add: sensor_at_def advanced_def)
  ultimately show ?thesis using w'(1) by auto
qed

lemma sensor_bits:
  assumes "sensor_at bits i w" and "i + n \<le> length bits"
  shows "\<exists>w'. bit_sequence n dht w = Some (take n (drop i bits), DHT_OK, w') \<and>
              sensor_at bits (i + n) w'"
  using assms
proof (induction n arbitrary: i w)
  case 0
  then show ?case by simp
next
  case (Suc n)
  from Suc.prems have i: "i < length bits" "Suc i + n \<le> length bits" by simp_all
  from sensor_bit [OF Suc.prems(1) i(1), of dht False 10]
  obtain w1 where w1: "dht_read_bit w dht False = Some (DHT_OK, bits ! i, w1)"
    "sensor_at bits (Suc i) (ets_delay_us w1 10)"
    by blast
  from Suc.IH [OF w1(2) i(2)]
  obtain w' where w': "bit_sequence n dht (ets_delay_us w1 10) =
      Some (take n (drop (Suc i) bits), DHT_OK, w')" "sensor_at bits (Suc i + n) w'"
    by blast
  have "take (Suc n) (drop i bits) = bits ! i # take n (drop (Suc i) bits)"
    using i(1) by (simp add: Cons_nth_drop_Suc [symmetric])
  with w1(1) w' show ?case by simp
qed

lemma all_less_4: "(\<forall>i<4. P i) \<longleftrightarrow> P 0 \<and> P 1 \<and> P 2 \<and> P (3::nat)"
proof -
  have "i < 4 \<longleftrightarrow> i = 0 \<or> i = 1 \<or> i = 2 \<or> i = 3" for i :: nat
    by auto
  then show ?thesis by auto
qed

lemma request_ok:
  assumes "\<forall>i<4. gpio_results w (gpio_calls w + i) = ESP_OK"
  shows "\<exists>w'. dht_request_readings w dht = (DHT_OK, w') \<and> advanced w 4 0 0 w' \<and>
           trace w' = [Set_direction dht GPIO_MODE_INPUT, Delay_us 20, Set_level dht 1,
                       Delay_us 3000, Set_level dht 0, Set_direction dht GPIO_MODE_OUTPUT] @ trace w"
  using assms
  by (simp add: all_less_4 dht_request_readings_def gpio_set_direction_def gpio_set_level_def
      ets_delay_us_def advanced_def spec_us_out_request_low_def spec_us_out_request_high_def
      numeral_2_eq_2 numeral_3_eq_3)

lemma request_fail:
  assumes "i < 4" and "\<forall>j<i. gpio_results w (gpio_calls w + j) = ESP_OK"
    and "gpio_results w (gpio_calls w + i) \<noteq> ESP_OK"
  shows "\<exists>w'. dht_request_readings w dht = (DHT_ERR_GPIO, w') \<and> advanced w (Suc i) 0 0 w'"
proof -
  from assms(1) consider "i = 0" | "i = 1" | "i = 2" | "i = 3" by linarith
  then show ?thesis
  proof cases
    case 1
    with assms show ?thesis
      by (simp add: dht_request_readings_def gpio_set_direction_def gpio_set_level_def
          ets_delay_us_def advanced_def)
  next
    case 2
    with assms show ?thesis
      by (simp add: dht_request_readings_def gpio_set_direction_def gpio_set_level_def
          ets_delay_us_def advanced_def)
  next
    case 3
    with assms(2) [rule_format, of 0] assms(2) [rule_format, of 1] assms(3)
    have "gpio_results w (gpio_calls w) = ESP_OK"
      "gpio_results w (Suc (gpio_calls w)) = ESP_OK"
      "gpio_results w (Suc (Suc (gpio_calls w))) \<noteq> ESP_OK"
      by (simp_all add: numeral_2_eq_2)
    then show ?thesis using 3
      by (simp add: dht_request_readings_def gpio_set_direction_def gpio_set_level_def
          ets_delay_us_def advanced_def)
  next
    case 4
    with assms(2) [rule_format, of 0] assms(2) [rule_format, of 1] assms(2) [rule_format, of 2]
      assms(3)
    have "gpio_results w (gpio_calls w) = ESP_OK"
      "gpio_results w (Suc (gpio_calls w)) = ESP_OK"
      "gpio_results w (Suc (Suc (gpio_calls w))) = ESP_OK"
      "gpio_results w (Suc (Suc (Suc (gpio_calls w)))) \<noteq> ESP_OK"
      by (simp_all add: numeral_2_eq_2 numeral_3_eq_3)
    then show ?thesis using 4
      by (simp add: dht_request_readings_def gpio_set_direction_def gpio_set_level_def
          ets_delay_us_def advanced_def)
  qed
qed

lemma request_world_fields [simp]:
  "gpio_results (request_world dht n w) = gpio_results w"
  "line_levels (request_world dht n w) = line_levels w"
  "timer_values (request_world dht n w) = timer_values w"
  "gpio_calls (request_world dht n w) = gpio_calls w + n"
  "level_calls (request_world dht n w) = level_calls w"
  "timer_calls (request_world dht n w) = timer_calls w"
  by (simp_all add: request_world_def)

lemma request_returns_ok:
  assumes "\<forall>i<4. gpio_results w (gpio_calls w + i) = ESP_OK"
  shows "dht_request_readings w dht = (DHT_OK, request_world dht 4 w)"
  using assms
  by (simp add: all_less_4 dht_request_readings_def gpio_set_direction_def gpio_set_level_def
      ets_delay_us_def spec_us_out_request_low_def spec_us_out_request_high_def
      numeral_2_eq_2 numeral_3_eq_3 request_world_def request_calls_def)

lemma request_returns_gpio:
  assumes "i < 4" and "\<forall>j<i. gpio_results w (gpio_calls w + j) = ESP_OK"
    and "gpio_results w (gpio_calls w + i) \<noteq> ESP_OK"
  shows "dht_request_readings w dht = (DHT_ERR_GPIO, request_world dht (Suc i) w)"
proof -
  from assms(1) consider "i = 0" | "i = 1" | "i = 2" | "i = 3" by linarith
  then show ?thesis
  proof cases
    case 1
    with assms show ?thesis
      by (simp add: dht_request_readings_def gpio_set_direction_def gpio_set_level_def
          ets_delay_us_def request_world_def request_calls_def)
  next
    case 2
    with assms show ?thesis
      by (simp add: dht_request_readings_def gpio_set_direction_def gpio_set_level_def
          ets_delay_us_def request_world_def request_calls_def numeral_2_eq_2)
  next
    case 3
    with assms(2) [rule_format, of 0] assms(2) [rule_format, of 1] assms(3)
    have "gpio_results w (gpio_calls w) = ESP_OK"
      "gpio_results w (Suc (gpio_calls w)) = ESP_OK"
      "gpio_results w (Suc (Suc (gpio_calls w))) \<noteq> ESP_OK"
      by (simp_all add: numeral_2_eq_2)
    then show ?thesis using 3
      by (simp add: dht_request_readings_def gpio_set_direction_def gpio_set_level_def
          ets_delay_us_def request_world_def request_calls_def numeral_2_eq_2 numeral_3_eq_3
          spec_us_out_request_low_def)
  next
    case 4
    with assms(2) [rule_format, of 0] assms(2) [rule_format, of 1] assms(2) [rule_format, of 2]
      assms(3)
    have "gpio_results w (gpio_calls w) = ESP_OK"
      "gpio_results w (Suc (gpio_calls w)) = ESP_OK"
      "gpio_results w (Suc (Suc (gpio_calls w))) = ESP_OK"
      "gpio_results w (Suc (Suc (Suc (gpio_calls w)))) \<noteq> ESP_OK"
      by (simp_all add: numeral_2_eq_2 numeral_3_eq_3)
    then show ?thesis using 4
      by (simp add: dht_request_readings_def gpio_set_direction_def gpio_set_level_def
          ets_delay_us_def request_world_def request_calls_def numeral_2_eq_2 numeral_3_eq_3
          spec_us_out_request_low_def spec_us_out_request_high_def)
  qed
qed

lemma sensor_handshake:
  assumes "line_levels w = sensor_levels" and "timer_values w = sensor_times bits"
    and "level_calls w = 0" and "timer_calls w = 0"
  shows "\<exists>w'. dht_await_data w dht = Some (DHT_OK, w') \<and> sensor_at bits 0 w'"
proof -
  have lv: "line_levels w (level_calls w) = 0" "line_levels w (level_calls w + 1) = 1"
    "line_levels w (level_calls w + 2) = 1" "line_levels w (level_calls w + 3) = 0"
    unfolding assms using sensor_levels_at [of 0] by simp_all
  have tv: "timer_values w (timer_calls w) = 0"
    "timer_values w (timer_calls w + 1) = 40"
    "timer_values w (timer_calls w + 2) = 80"
    "timer_values w (timer_calls w + 3) = 120"
    unfolding assms by (simp_all add: sensor_times_def)
  have low: "keeps_waiting w 0 (timer_values w (timer_calls w)) 90
             (level_calls w) (Suc (timer_calls w)) 1"
    using lv tv by (simp add: keeps_waiting_Suc)
  have rise: "line_levels w (level_calls w + 1) \<noteq> 0"
    using lv by simp
  have high: "keeps_waiting w 1 (timer_values w (timer_calls w + 1 + 1)) 90
             (level_calls w + 1 + 1) (timer_calls w + 1 + 2) 1"
    using lv tv by (simp add: keeps_waiting_Suc numeral_2_eq_2 numeral_3_eq_3)
  have fall: "line_levels w (level_calls w + 1 + 1 + 1) \<noteq> 1"
    using lv by (simp add: numeral_3_eq_3)
  from await_high [OF low rise high, of dht] fall
  obtain w' where w': "dht_await_data w dht = Some (DHT_OK, w')"
    "advanced w 0 (1 + 1 + 2) (1 + 1 + 2) w'"
    by blast
  have "sensor_at bits 0 w'"
    using w'(2) assms by (simp add: sensor_at_def advanced_def)
  with w'(1) show ?thesis by blast
qed

lemma length_bits_of_byte [simp]: "length (bits_of_byte f) = 8"
  by (simp add: bits_of_byte_def)

lemma byte_of_bits_of_byte [simp]: "byte_of_bits (bits_of_byte f) = f"
proof (rule bit_word_eqI)
  fix n :: nat
  assume "n < LENGTH(8)"
  then consider "n = 0" | "n = 1" | "n = 2" | "n = 3" | "n = 4" | "n = 5" | "n = 6" | "n = 7"
    by fastforce
  then show "bit (byte_of_bits (bits_of_byte f)) n = bit f n"
    by cases (simp_all add: byte_of_bits_def bits_of_byte_def upt_8 bit_or_iff bit_push_bit_iff
        bit_1_iff)
qed

lemma upt_5: "[0..<5] = [0, 1, 2, 3, 4]"
  by code_simp

lemma frame_of_bits_frame:
  assumes "length frame = 5"
  shows "frame_of_bits (concat (map bits_of_byte frame)) = frame"
proof -
  from assms obtain f0 f1 f2 f3 f4 where "frame = [f0, f1, f2, f3, f4]"
    by (auto simp: eval_nat_numeral length_Suc_conv)
  then show ?thesis
    by (simp add: frame_of_bits_def upt_5)
qed

lemma sensor_frame:
  assumes "length frame = 5"
  shows "\<exists>w1 w2 w3.
           dht_request_readings (sensor_world frame) dht = (DHT_OK, w1) \<and>
           dht_await_data w1 dht = Some (DHT_OK, w2) \<and>
           bit_sequence 40 dht w2 = Some (concat (map bits_of_byte frame), DHT_OK, w3) \<and>
           read_frame_loop 0 dht (replicate DHT_BYTES_PER_READ 0x00) False w2 =
             Some (DHT_OK, frame, w3)"
proof -
  let ?bits = "concat (map bits_of_byte frame)"
  have len: "length ?bits = 40"
    using assms by (simp add: length_concat comp_def sum_list_triv)
  obtain w1 where w1: "dht_request_readings (sensor_world frame) dht = (DHT_OK, w1)"
    "advanced (sensor_world frame) 4 0 0 w1"
    using request_ok [of "sensor_world frame" dht] by (auto simp: sensor_world_def)
  then have "line_levels w1 = sensor_levels" "timer_values w1 = sensor_times ?bits"
    "level_calls w1 = 0" "timer_calls w1 = 0"
    by (simp_all add: advanced_def sensor_world_def)
  from sensor_handshake [OF this, of dht]
  obtain w2 where w2: "dht_await_data w1 dht = Some (DHT_OK, w2)" "sensor_at ?bits 0 w2"
    by blast
  from sensor_bits [OF w2(2), of 40 dht] len
  obtain w3 where w3: "bit_sequence 40 dht w2 = Some (?bits, DHT_OK, w3)"
    by auto
  have "read_frame_loop 0 dht (replicate DHT_BYTES_PER_READ 0x00) False w2 =
      Some (DHT_OK, frame, w3)"
    using w3 read_frame_loop_bits [of 0 5 "replicate 5 0" dht False w2]
    by (simp add: DHT_BYTES_PER_READ_def stored_frame frame_of_bits_frame [OF assms])
  with w1(1) w2(1) w3 show ?thesis by blast
qed

subsection \<open>Binary32 rounding\<close>

lemma find_sorted_least:
  assumes "sorted xs" and "y \<in> set xs" and "P y"
  shows "\<exists>e. find P xs = Some e \<and> e \<le> y \<and> P e \<and> e \<in> set xs"
  using assms
proof (induction xs)
  case Nil
  then show ?case by simp
next
  case (Cons x xs)
  then show ?case by (cases "P x") auto
qed

lemma f32_exponent_range: "- 126 \<le> f32_exponent x \<and> f32_exponent x \<le> 127"
proof (cases "find (\<lambda>e. \<bar>x\<bar> < 2 powi (e + 1)) [-126..127]")
  case None
  then show ?thesis by (simp add: f32_exponent_def)
next
  case (Some e)
  then obtain i where "i < length [-126..127::int]" "e = [-126..127] ! i"
    unfolding find_Some_iff by blast
  then have "e \<in> set [-126..127]"
    using nth_mem by blast
  then have "- 126 \<le> e \<and> e \<le> 127"
    unfolding set_upto by simp
  with Some show ?thesis by (simp add: f32_exponent_def)
qed

lemma f32_exponent_le:
  assumes "- 126 \<le> e" and "e \<le> 127" and "\<bar>x\<bar> < 2 powi (e + 1)"
  shows "f32_exponent x \<le> e"
proof -
  have "e \<in> set [-126..127]"
    unfolding set_upto using assms by simp
  from find_sorted_least [of "[-126..127]" e "\<lambda>e. \<bar>x\<bar> < 2 powi (e + 1)",
      OF sorted_upto this assms(3)]
  obtain e' where "find (\<lambda>e. \<bar>x\<bar> < 2 powi (e + 1)) [-126..127] = Some e'" "e' \<le> e"
    by blast
  then show ?thesis by (simp add: f32_exponent_def)
qed

lemma f32_exponent_upper:
  assumes "f32_exponent x < 127"
  shows "\<bar>x\<bar> < 2 powi (f32_exponent x + 1)"
proof (cases "find (\<lambda>e. \<bar>x\<bar> < 2 powi (e + 1)) [-126..127]")
  case None
  with assms show ?thesis by (simp add: f32_exponent_def)
next
  case (Some e)
  then have "\<bar>x\<bar> < 2 powi (e + 1)"
    unfolding find_Some_iff by blast
  with Some show ?thesis by (simp add: f32_exponent_def)
qed

lemma f32_exponent_minus [simp]: "f32_exponent (- x) = f32_exponent x"
  by (simp add: f32_exponent_def)

lemma round_half_even_of_int [simp]: "round_half_even (of_int z) = z"
  by (simp add: round_half_even_def)

lemma round_half_even_minus: "round_half_even (- s) = - round_half_even s"
proof (cases "s = of_int \<lfloor>s\<rfloor>")
  case True
  then obtain z where z: "s = of_int z" ..
  show ?thesis
    unfolding z by (simp flip: of_int_minus)
next
  case False
  then have fl: "\<lfloor>- s\<rfloor> = - \<lfloor>s\<rfloor> - 1"
    by (simp add: floor_minus ceiling_altdef)
  have r: "0 < s - of_int \<lfloor>s\<rfloor>" "s - of_int \<lfloor>s\<rfloor> < 1"
    using False floor_correct [of s] by (simp_all add: less_le)
  show ?thesis
    unfolding round_half_even_def Let_def fl using r
    by (auto simp: field_simps)
qed

lemma round_half_even_error: "\<bar>of_int (round_half_even s) - s\<bar> \<le> 1 / 2"
proof -
  define f where "f = \<lfloor>s\<rfloor>"
  have "of_int f \<le> s" "s < of_int f + 1"
    unfolding f_def using floor_correct [of s] by simp_all
  then show ?thesis
    unfolding round_half_even_def Let_def f_def [symmetric] by (auto simp: abs_if field_simps)
qed

lemma round_half_even_bound:
  assumes "\<bar>s\<bar> < of_int n"
  shows "\<bar>round_half_even s\<bar> \<le> n"
proof -
  have "\<lfloor>s\<rfloor> < n" "- n \<le> \<lfloor>s\<rfloor>"
    using assms by (simp_all add: floor_less_iff le_floor_iff abs_less_iff)
  moreover have "round_half_even s = \<lfloor>s\<rfloor> \<or> round_half_even s = \<lfloor>s\<rfloor> + 1"
    by (simp add: round_half_even_def Let_def)
  ultimately show ?thesis by auto
qed

lemma ulp_pos [simp]: "0 < (2::rat) powi n"
  by (simp add: zero_less_power_int)

lemma f32_round_unfold:
  "f32_round x =
     of_int (round_half_even (x / 2 powi (f32_exponent x - 23))) * 2 powi (f32_exponent x - 23)"
  by (simp add: f32_round_def Let_def)

lemma f32_round_exact:
  assumes "x / 2 powi (f32_exponent x - 23) = of_int z"
  shows "f32_round x = x"
proof -
  have "f32_round x = of_int z * 2 powi (f32_exponent x - 23)"
    by (simp add: f32_round_unfold assms)
  also have "\<dots> = x"
    using assms by (simp add: field_simps)
  finally show ?thesis .
qed

lemma powi_nonneg: "0 \<le> n \<Longrightarrow> (2::rat) powi n = of_int (2 ^ nat n)"
  by (simp add: power_int_def)

lemma f32_round_of_int:
  assumes "\<bar>k\<bar> < 2 ^ 24"
  shows "f32_round (of_int k) = of_int k"
proof -
  define e where "e = f32_exponent (of_int k)"
  have "\<bar>rat_of_int k\<bar> < 2 powi (23 + 1)"
    using assms by (simp add: powi_nonneg flip: of_int_abs)
  then have "e \<le> 23"
    unfolding e_def by (intro f32_exponent_le) simp_all
  then have "rat_of_int k / 2 powi (e - 23) = of_int k * 2 powi (23 - e)"
    by (simp add: power_int_diff field_simps)
  also have "\<dots> = of_int (k * 2 ^ nat (23 - e))"
    using \<open>e \<le> 23\<close> by (simp add: powi_nonneg)
  finally show ?thesis
    unfolding e_def by (rule f32_round_exact)
qed

lemma f32_round_minus: "f32_round (- x) = - f32_round x"
  by (simp add: f32_round_unfold round_half_even_minus)

lemma f32_round_idem: "f32_round (f32_round x) = f32_round x"
proof -
  define e where "e = f32_exponent x"
  define m where "m = round_half_even (x / 2 powi (e - 23))"
  define y where "y = f32_round x"
  define e' where "e' = f32_exponent y"
  have y: "y = of_int m * 2 powi (e - 23)"
    by (simp add: y_def f32_round_unfold m_def e_def)
  have range: "- 126 \<le> e" "e \<le> 127" "e' \<le> 127"
    using f32_exponent_range [of x] f32_exponent_range [of y] by (simp_all add: e_def e'_def)
  have "\<exists>z. y / 2 powi (e' - 23) = of_int z"
  proof (cases "e' \<le> e")
    case True
    have "y / 2 powi (e' - 23) = of_int m * 2 powi (e - e')"
      unfolding y by (simp add: power_int_diff field_simps)
    also have "\<dots> = of_int (m * 2 ^ nat (e - e'))"
      using True by (simp add: powi_nonneg)
    finally show ?thesis ..
  next
    case False
    then have "e < 127" using range by simp
    then have "\<bar>x\<bar> < 2 powi (e + 1)"
      unfolding e_def by (rule f32_exponent_upper)
    then have "\<bar>x / 2 powi (e - 23)\<bar> < 2 powi (e + 1) / 2 powi (e - 23)"
      by (simp add: divide_strict_right_mono)
    also have "2 powi (e + 1) / 2 powi (e - 23) = (2::rat) powi 24"
      by (simp flip: power_int_diff)
    finally have "\<bar>x / 2 powi (e - 23)\<bar> < of_int (2 ^ 24)"
      by (simp add: powi_nonneg)
    then have m_le: "\<bar>m\<bar> \<le> 2 ^ 24"
      unfolding m_def by (rule round_half_even_bound)
    have "\<not> \<bar>y\<bar> < 2 powi (e + 1)"
      using False f32_exponent_le [OF range(1,2), of y] by (auto simp: e'_def)
    then have "2 powi (e + 1) \<le> \<bar>of_int m\<bar> * (2::rat) powi (e - 23)"
      by (simp add: y abs_mult)
    then have "2 powi (e + 1) / 2 powi (e - 23) \<le> \<bar>rat_of_int m\<bar>"
      by (simp add: field_simps)
    also have "2 powi (e + 1) / 2 powi (e - 23) = (2::rat) powi 24"
      by (simp flip: power_int_diff)
    finally have "rat_of_int (2 ^ 24) \<le> of_int \<bar>m\<bar>"
      by (simp add: powi_nonneg)
    then have "2 ^ 24 \<le> \<bar>m\<bar>"
      by (simp only: of_int_le_iff)
    with m_le have m: "\<bar>m\<bar> = 2 ^ 24" by simp
    then have abs_y: "\<bar>y\<bar> = 2 powi (e + 1)"
    proof -
      have "\<bar>y\<bar> = of_int \<bar>m\<bar> * 2 powi (e - 23)"
        by (simp add: y abs_mult)
      also have "\<dots> = 2 powi 24 * 2 powi (e - 23)"
        unfolding m by (simp add: powi_nonneg)
      also have "\<dots> = 2 powi (24 + (e - 23))"
        by (rule power_int_add [symmetric]) simp
      also have "24 + (e - 23) = e + 1"
        by simp
      finally show ?thesis .
    qed
    have "\<bar>y\<bar> < 2 powi (e + 1 + 1)"
      unfolding abs_y by (intro power_int_strict_increasing) simp_all
    then have "e' \<le> e + 1"
      unfolding e'_def using range \<open>e < 127\<close> by (intro f32_exponent_le) simp_all
    with False have e': "e' = e + 1" by simp
    have "y / 2 powi (e' - 23) = of_int m * (2 powi (e - 23) / 2 powi (e + 1 - 23))"
      unfolding y e' by simp
    also have "2 powi (e - 23) / 2 powi (e + 1 - 23) = (2::rat) powi (- 1)"
      by (simp flip: power_int_diff)
    finally have half: "y / 2 powi (e' - 23) = of_int m / 2"
      by (simp add: power_int_minus)
    have "even \<bar>m\<bar>" unfolding m by simp
    then have "even m" by simp
    then obtain b where "m = 2 * b" ..
    then have "y / 2 powi (e' - 23) = of_int b"
      unfolding half by simp
    then show ?thesis ..
  qed
  then obtain z where "y / 2 powi (f32_exponent y - 23) = of_int z"
    unfolding e'_def by blast
  then have "f32_round y = y"
    by (rule f32_round_exact)
  then show ?thesis
    by (simp add: y_def)
qed

lemma f32_round_error:
  assumes "- 126 \<le> e" and "e \<le> 127" and "\<bar>x\<bar> < 2 powi (e + 1)"
  shows "\<bar>f32_round x - x\<bar> \<le> 2 powi (e - 24)"
proof -
  define u :: rat where "u = 2 powi (f32_exponent x - 23)"
  have u: "0 < u" by (simp add: u_def)
  have "f32_round x - x = (of_int (round_half_even (x / u)) - x / u) * u"
    using u by (simp add: f32_round_unfold u_def field_simps)
  then have "\<bar>f32_round x - x\<bar> = \<bar>of_int (round_half_even (x / u)) - x / u\<bar> * u"
    using u by (simp add: abs_mult)
  also have "\<dots> \<le> 1 / 2 * u"
    using u round_half_even_error [of "x / u"] by (intro mult_right_mono) simp_all
  also have "u \<le> 2 powi (e - 23)"
    unfolding u_def using f32_exponent_le [OF assms] by (intro power_int_increasing) simp_all
  also have "1 / 2 * (2::rat) powi (e - 23) = 2 powi (e - 24)"
  proof -
    have "(2::rat) powi (e - 24 + 1) = 2 powi (e - 24) * 2 powi 1"
      by (rule power_int_add) simp
    moreover have "e - 24 + 1 = e - 23"
      by simp
    ultimately have "(2::rat) powi (e - 23) = 2 powi (e - 24) * 2"
      by simp
    then show ?thesis by simp
  qed
  finally show ?thesis by simp
qed

subsection \<open>The checksum test and the decoded reading\<close>

lemma and_255: "(x::int) AND 0xFF = x mod 256"
  using take_bit_eq_mask [of 8 x] by (simp add: take_bit_eq_mod mask_eq_exp_minus_1)

lemma checksum_test:
  "uint (b4 :: 8 word) \<noteq> (uint (b0 :: 8 word) + uint (b1 :: 8 word) + uint (b2 :: 8 word) +
      uint (b3 :: 8 word)) AND 0xFF \<longleftrightarrow>
   unat b4 \<noteq> (unat b0 + unat b1 + unat b2 + unat b3) mod 256"
proof -
  have "(uint b0 + uint b1 + uint b2 + uint b3) mod 256 =
      int ((unat b0 + unat b1 + unat b2 + unat b3) mod 256)"
    by (simp add: zmod_int)
  moreover have "uint b4 = int (unat b4)"
    by simp
  ultimately have "uint b4 = (uint b0 + uint b1 + uint b2 + uint b3) mod 256 \<longleftrightarrow>
      unat b4 = (unat b0 + unat b1 + unat b2 + unat b3) mod 256"
    by (simp only: of_nat_eq_iff)
  then show ?thesis
    unfolding and_255 by simp
qed

lemma zeroed_reading:
  "(reading0 :: dht_reading)\<lparr>temperature := 0, humidity := 0, checksum := 0\<rparr> = zero_reading"
  by (cases reading0) (simp add: zero_reading_def)

lemma dht_read_unfold:
  "dht_read w dht reading0 =
     (case dht_request_readings w dht of (s1, w1) \<Rightarrow>
        if s1 \<noteq> DHT_OK then Some (DHT_ERR_GPIO, zero_reading, w1)
        else (case dht_await_data w1 dht of
                None \<Rightarrow> None
              | Some (s2, w2) \<Rightarrow>
                  if s2 \<noteq> DHT_OK then Some (DHT_ERR_TIMEOUT, zero_reading, w2)
                  else (case bit_sequence 40 dht w2 of
                          None \<Rightarrow> None
                        | Some (bs, s3, w3) \<Rightarrow>
                            if s3 \<noteq> DHT_OK then Some (DHT_ERR_TIMEOUT, zero_reading, w3)
                            else if \<not> checksum_matches (frame_of_bits bs)
                              then Some (DHT_ERR_BADCHECKSUM, zero_reading, w3)
                              else Some (DHT_OK, parse_buffer zero_reading (frame_of_bits bs),
                                         w3))))"
proof -
  have frame: "read_frame_loop 0 dht (replicate DHT_BYTES_PER_READ 0x00) False w2 =
      map_option (\<lambda>(bs, s, w'). (s, frame_of_bits bs, w')) (bit_sequence 40 dht w2)" for w2
    using read_frame_loop_bits [of 0 5 "replicate 5 0" dht False w2]
    by (simp add: DHT_BYTES_PER_READ_def stored_frame)
  show ?thesis
    unfolding dht_read_def Let_def zeroed_reading frame checksum_test checksum_matches_def
    by (auto split: prod.splits option.splits Option.bind_splits)
qed

lemma assembled_frame_unfold:
  "assembled_frame w dht =
     (case dht_request_readings w dht of (s1, w1) \<Rightarrow>
        if s1 \<noteq> DHT_OK then None
        else (case dht_await_data w1 dht of
                None \<Rightarrow> None
              | Some (s2, w2) \<Rightarrow>
                  if s2 \<noteq> DHT_OK then None
                  else (case bit_sequence 40 dht w2 of
                          None \<Rightarrow> None
                        | Some (bs, s3, w3) \<Rightarrow>
                            if s3 \<noteq> DHT_OK then None else Some (frame_of_bits bs))))"
proof -
  have frame: "read_frame_loop 0 dht (replicate DHT_BYTES_PER_READ 0x00) False w2 =
      map_option (\<lambda>(bs, s, w'). (s, frame_of_bits bs, w')) (bit_sequence 40 dht w2)" for w2
    using read_frame_loop_bits [of 0 5 "replicate 5 0" dht False w2]
    by (simp add: DHT_BYTES_PER_READ_def stored_frame)
  show ?thesis
    unfolding assembled_frame_def Let_def frame
    by (auto split: prod.splits option.splits Option.bind_splits)
qed

lemma dht_read_assembled:
  assumes "assembled_frame w dht = Some buf"
  shows "\<exists>w'. dht_read w dht reading0 =
           Some (if checksum_matches buf then (DHT_OK, parse_buffer zero_reading buf, w')
                 else (DHT_ERR_BADCHECKSUM, zero_reading, w'))"
  using assms unfolding assembled_frame_unfold dht_read_unfold
  by (auto split: prod.splits option.splits if_splits)

lemma f32_of_int_exact: "\<bar>k\<bar> < 2 ^ 24 \<Longrightarrow> f32_of_int k = of_int k"
  by (simp add: f32_of_int_def f32_round_of_int)

lemma f32_mul_exact: "\<bar>a * b\<bar> < 2 ^ 24 \<Longrightarrow> f32_mul (of_int a) (of_int b) = of_int (a * b)"
  using f32_round_of_int [of "a * b"] by (simp add: f32_mul_def)

lemma f32_add_exact: "\<bar>a + b\<bar> < 2 ^ 24 \<Longrightarrow> f32_add (of_int a) (of_int b) = of_int (a + b)"
  using f32_round_of_int [of "a + b"] by (simp add: f32_add_def)

lemma f32_scaled:
  assumes "0 \<le> a" "a < 256" "0 \<le> b" "b < 256"
  shows "f32_div (f32_add (f32_mul (f32_of_int a) (f32_of_int 0x100)) (f32_of_int b))
           (f32_of_int 10) = f32_round (of_int (a * 256 + b) / 10)"
proof -
  have 1: "f32_of_int a = of_int a" "f32_of_int b = of_int b" "f32_of_int 0x100 = of_int 256"
    "f32_of_int 10 = of_int 10"
    using assms by (simp_all add: f32_of_int_exact)
  have 2: "f32_mul (of_int a) (of_int 256) = of_int (a * 256)"
    using assms by (intro f32_mul_exact) (simp add: abs_if)
  have 3: "f32_add (of_int (a * 256)) (of_int b) = of_int (a * 256 + b)"
    using assms by (intro f32_add_exact) (simp add: abs_if)
  show ?thesis
    unfolding 1 2 3 by (simp add: f32_div_def)
qed

lemma f32_negate: "f32_mul (f32_round x) (f32_of_int (- 1)) = - f32_round x"
proof -
  have "f32_of_int (- 1) = of_int (- 1)"
    by (intro f32_of_int_exact) simp
  then show ?thesis
    by (simp add: f32_mul_def f32_round_minus f32_round_idem)
qed

lemma sign_bit: "uint (b :: 8 word) AND 0x80 \<noteq> 0 \<longleftrightarrow> bit b 7"
proof -
  have "uint b AND 0x80 = uint (b AND 2 ^ 7)"
    by (simp add: uint_and)
  moreover have "b AND 2 ^ 7 = 0 \<longleftrightarrow> \<not> bit b 7"
    by (rule and_exp_eq_0_iff_not_bit)
  ultimately show ?thesis
    by (simp add: uint_0_iff)
qed

lemma humidity_word:
  fixes b0 b1 :: "8 word"
  shows "f32_div (f32_add (f32_mul (f32_of_int (uint b0)) (f32_of_int 0x100))
        (f32_of_int (uint b1))) (f32_of_int 10) =
      f32_round (of_nat (unat b0 * 256 + unat b1) / 10)"
proof -
  have byte: "0 \<le> uint b" "uint b < 256" for b :: "8 word"
    using uint_lt2p [of b] by simp_all
  show ?thesis
    using f32_scaled [OF byte byte, of b0 b1] by simp
qed

lemma temperature_word:
  fixes b2 b3 :: "8 word"
  shows "f32_div (f32_add (f32_mul (f32_of_int (uint b2 AND 0x7F)) (f32_of_int 0x100))
        (f32_of_int (uint b3))) (f32_of_int 10) =
      f32_round (of_nat (unat (b2 AND 0x7F) * 256 + unat b3) / 10)"
proof -
  have byte: "0 \<le> uint b" "uint b < 256" for b :: "8 word"
    using uint_lt2p [of b] by simp_all
  have "uint b2 AND 0x7F = uint (b2 AND 0x7F)"
    by (simp add: uint_and)
  then show ?thesis
    using f32_scaled [OF byte byte, of "b2 AND 0x7F" b3] by simp
qed

lemma parse_buffer_fields:
  "humidity (parse_buffer r buf) =
     f32_round (of_nat (unat (buf ! 0) * 256 + unat (buf ! 1)) / 10)"
  "temperature (parse_buffer r buf) =
     (if bit (buf ! 2) 7
      then - f32_round (of_nat (unat (buf ! 2 AND 0x7F) * 256 + unat (buf ! 3)) / 10)
      else f32_round (of_nat (unat (buf ! 2 AND 0x7F) * 256 + unat (buf ! 3)) / 10))"
  "checksum (parse_buffer r buf) = buf ! 4"
  by (simp_all add: parse_buffer_def Let_def humidity_word temperature_word sign_bit f32_negate)

lemma tenths_error:
  assumes "n < 65536"
  shows "\<bar>f32_round (of_nat n / 10) - of_nat n / 10\<bar> \<le> 1 / 4096"
proof -
  have "\<bar>rat_of_nat n / 10\<bar> < 2 powi (12 + 1)"
    using assms by (simp add: powi_nonneg)
  from f32_round_error [OF _ _ this] have "\<bar>f32_round (of_nat n / 10) - of_nat n / 10\<bar> \<le> 2 powi (12 - 24)"
    by simp
  also have "(2::rat) powi (12 - 24) = 1 / 4096"
    by (simp add: power_int_minus)
  finally show ?thesis .
qed

lemma sensor_assembled:
  assumes "length frame = 5"
  shows "assembled_frame (sensor_world frame) dht = Some frame"
  using sensor_frame [OF assms, of dht]
  by (auto simp: assembled_frame_def)

lemma f32_exponent_ge:
  assumes "2 powi e \<le> \<bar>x\<bar>" and "e \<le> 127"
  shows "e \<le> f32_exponent x"
proof (rule ccontr)
  assume "\<not> e \<le> f32_exponent x"
  then have less: "f32_exponent x + 1 \<le> e" by simp
  with assms(2) have "f32_exponent x < 127" by simp
  then have "\<bar>x\<bar> < 2 powi (f32_exponent x + 1)"
    by (rule f32_exponent_upper)
  also have "\<dots> \<le> 2 powi e"
    using less by (intro power_int_increasing) simp_all
  finally show False using assms by simp
qed

lemma f32_exponent_eq:
  assumes "2 powi e \<le> \<bar>x\<bar>" and "\<bar>x\<bar> < 2 powi (e + 1)" and "- 126 \<le> e" and "e \<le> 127"
  shows "f32_exponent x = e"
  using f32_exponent_ge [OF assms(1,4)] f32_exponent_le [OF assms(3,4,2)] by simp

lemma round_half_even_near:
  assumes "\<bar>s - of_int z\<bar> < 1 / 2"
  shows "round_half_even s = z"
proof (cases "of_int z \<le> s")
  case True
  with assms have "\<lfloor>s\<rfloor> = z"
    by (intro floor_unique) simp_all
  with assms True show ?thesis
    by (simp add: round_half_even_def Let_def)
next
  case False
  with assms have "\<lfloor>s\<rfloor> = z - 1"
    by (intro floor_unique) simp_all
  with assms False show ?thesis
    by (simp add: round_half_even_def Let_def)
qed

lemma f32_round_near:
  assumes "2 powi e \<le> \<bar>x\<bar>" and "\<bar>x\<bar> < 2 powi (e + 1)" and "- 126 \<le> e" and "e \<le> 127"
    and "\<bar>x / 2 powi (e - 23) - of_int z\<bar> < 1 / 2"
  shows "f32_round x = of_int z * 2 powi (e - 23)"
  using round_half_even_near [OF assms(5)] f32_exponent_eq [OF assms(1-4)]
  by (simp add: f32_round_unfold)

lemma f32_round_652: "f32_round (326 / 5) = 4272947 / 65536"
  using f32_round_near [of 6 "326 / 5" 8545894] by (simp add: power_int_minus)

lemma f32_round_258: "f32_round (129 / 5) = 6763315 / 262144"
  using f32_round_near [of 4 "129 / 5" 13526630] by (simp add: power_int_minus)

subsection \<open>Results of \<^verbatim>\<open>dht_read\<close>\<close>

text \<open>
  C2. When \<^verbatim>\<open>dht_read\<close> has assembled the frame \<open>buf\<close>, it returns \<^verbatim>\<open>DHT_OK\<close> if
  \<open>buf[4] = (buf[0] + buf[1] + buf[2] + buf[3]) mod 256\<close> and
  \<^verbatim>\<open>DHT_ERR_BADCHECKSUM\<close> if not; it returns in both cases.
\<close>

theorem checksum_validation:
  assumes "assembled_frame w dht = Some buf"
  shows "\<exists>reading w'. dht_read w dht reading0 =
           Some (if unat (buf ! 4) =
                    (unat (buf ! 0) + unat (buf ! 1) + unat (buf ! 2) + unat (buf ! 3)) mod 256
                 then DHT_OK else DHT_ERR_BADCHECKSUM, reading, w')"
  using dht_read_assembled [OF assms, of reading0]
  by (auto simp: checksum_matches_def)

theorem checksum_validation_witness:
  "assembled_frame (sensor_world [0x02, 0x8C, 0x01, 0x02, 0x91]) 22 =
     Some [0x02, 0x8C, 0x01, 0x02, 0x91] \<and>
   status_of (dht_read (sensor_world [0x02, 0x8C, 0x01, 0x02, 0x91]) 22 zero_reading) =
     Some DHT_OK \<and>
   assembled_frame (sensor_world [0x02, 0x8C, 0x01, 0x02, 0x92]) 22 =
     Some [0x02, 0x8C, 0x01, 0x02, 0x92] \<and>
   status_of (dht_read (sensor_world [0x02, 0x8C, 0x01, 0x02, 0x92]) 22 zero_reading) =
     Some DHT_ERR_BADCHECKSUM"
proof -
  let ?good = "[0x02, 0x8C, 0x01, 0x02, 0x91] :: 8 word list"
  let ?bad = "[0x02, 0x8C, 0x01, 0x02, 0x92] :: 8 word list"
  have a: "assembled_frame (sensor_world ?good) 22 = Some ?good"
    by (rule sensor_assembled) simp
  have b: "assembled_frame (sensor_world ?bad) 22 = Some ?bad"
    by (rule sensor_assembled) simp
  have good: "unat (?good ! 4) =
      (unat (?good ! 0) + unat (?good ! 1) + unat (?good ! 2) + unat (?good ! 3)) mod 256"
    by simp
  have bad: "unat (?bad ! 4) \<noteq>
      (unat (?bad ! 0) + unat (?bad ! 1) + unat (?bad ! 2) + unat (?bad ! 3)) mod 256"
    by simp
  from checksum_validation [OF a, of zero_reading] obtain r w' where
    "dht_read (sensor_world ?good) 22 zero_reading = Some (DHT_OK, r, w')"
    unfolding if_P [OF good] by blast
  then have 1: "status_of (dht_read (sensor_world ?good) 22 zero_reading) = Some DHT_OK"
    by (simp add: status_of_def)
  from checksum_validation [OF b, of zero_reading] obtain r w' where
    "dht_read (sensor_world ?bad) 22 zero_reading = Some (DHT_ERR_BADCHECKSUM, r, w')"
    unfolding if_not_P [OF bad] by blast
  then have 2: "status_of (dht_read (sensor_world ?bad) 22 zero_reading) =
      Some DHT_ERR_BADCHECKSUM"
    by (simp add: status_of_def)
  from a 1 b 2 show ?thesis by blast
qed

text \<open>
  C3. When the assembled frame passes the checksum test, \<^verbatim>\<open>dht_read\<close> returns \<^verbatim>\<open>DHT_OK\<close>
  and the reading holds, as binary32 numbers, the humidity \<open>(buf[0] * 256 + buf[1]) / 10\<close>
  and the temperature \<open>((buf[2] & 0x7F) * 256 + buf[3]) / 10\<close>, negated exactly when bit 7
  of \<open>buf[2]\<close> is set. The multiplication by 256 and the sum are exact in binary32, so
  each field is the quotient rounded once, and it is within \<open>1 / 4096\<close> of the exact
  quotient. For the frame \<open>02 8C 01 02 91\<close> the fields are the binary32 numbers nearest to
  65.2 and 25.8, and for \<open>02 8C 81 02 11\<close> the temperature is the one nearest to -25.8.
\<close>

theorem reading_decoded:
  assumes "assembled_frame w dht = Some buf"
    and "unat (buf ! 4) =
           (unat (buf ! 0) + unat (buf ! 1) + unat (buf ! 2) + unat (buf ! 3)) mod 256"
  shows "\<exists>reading w'. dht_read w dht reading0 = Some (DHT_OK, reading, w') \<and>
           humidity reading = f32_round (of_nat (unat (buf ! 0) * 256 + unat (buf ! 1)) / 10) \<and>
           temperature reading =
             (if bit (buf ! 2) 7
              then - f32_round (of_nat (unat (buf ! 2 AND 0x7F) * 256 + unat (buf ! 3)) / 10)
              else f32_round (of_nat (unat (buf ! 2 AND 0x7F) * 256 + unat (buf ! 3)) / 10)) \<and>
           \<bar>humidity reading - of_nat (unat (buf ! 0) * 256 + unat (buf ! 1)) / 10\<bar> \<le> 1 / 4096 \<and>
           \<bar>temperature reading -
              (if bit (buf ! 2) 7
               then - (of_nat (unat (buf ! 2 AND 0x7F) * 256 + unat (buf ! 3)) / 10)
               else of_nat (unat (buf ! 2 AND 0x7F) * 256 + unat (buf ! 3)) / 10)\<bar> \<le> 1 / 4096"
proof -
  from dht_read_assembled [OF assms(1), of reading0] assms(2)
  obtain w' where run: "dht_read w dht reading0 = Some (DHT_OK, parse_buffer zero_reading buf, w')"
    by (auto simp: checksum_matches_def)
  have byte: "unat b < 256" for b :: "8 word"
    using unsigned_less [of b, where ?'a = nat] by simp
  have h: "unat (buf ! 0) * 256 + unat (buf ! 1) < 65536"
    using byte [of "buf ! 0"] byte [of "buf ! 1"] by simp
  have t: "unat (buf ! 2 AND 0x7F) * 256 + unat (buf ! 3) < 65536"
    using byte [of "buf ! 2 AND 0x7F"] byte [of "buf ! 3"] by simp
  have "\<bar>- a - (- b)\<bar> = \<bar>a - b\<bar>" for a b :: rat
    by simp
  then show ?thesis
    using run tenths_error [OF h] tenths_error [OF t]
    unfolding parse_buffer_fields [of zero_reading buf, symmetric]
    by (intro exI [of _ "parse_buffer zero_reading buf"] exI [of _ w'])
      (simp add: parse_buffer_fields del: of_nat_add of_nat_mult)
qed

theorem reading_decoded_witness:
  "map_option (\<lambda>r. (humidity r, temperature r))
     (reading_of (dht_read (sensor_world [0x02, 0x8C, 0x01, 0x02, 0x91]) 22 zero_reading)) =
     Some (4272947 / 65536, 6763315 / 262144) \<and>
   map_option (\<lambda>r. (humidity r, temperature r))
     (reading_of (dht_read (sensor_world [0x02, 0x8C, 0x81, 0x02, 0x11]) 22 zero_reading)) =
     Some (4272947 / 65536, - (6763315 / 262144)) \<and>
   \<bar>4272947 / 65536 - 652 / 10\<bar> \<le> (1 / 4096 :: rat) \<and>
   \<bar>6763315 / 262144 - 258 / 10\<bar> \<le> (1 / 4096 :: rat)"
proof -
  let ?pos = "[0x02, 0x8C, 0x01, 0x02, 0x91] :: 8 word list"
  let ?neg = "[0x02, 0x8C, 0x81, 0x02, 0x11] :: 8 word list"
  have a: "assembled_frame (sensor_world ?pos) 22 = Some ?pos"
    by (rule sensor_assembled) simp
  have b: "assembled_frame (sensor_world ?neg) 22 = Some ?neg"
    by (rule sensor_assembled) simp
  have pos: "unat (?pos ! 4) =
      (unat (?pos ! 0) + unat (?pos ! 1) + unat (?pos ! 2) + unat (?pos ! 3)) mod 256"
    by simp
  have neg: "unat (?neg ! 4) =
      (unat (?neg ! 0) + unat (?neg ! 1) + unat (?neg ! 2) + unat (?neg ! 3)) mod 256"
    by simp
  have bits: "bit (?pos ! 2) 7 = False" "bit (?neg ! 2) 7 = True"
    "?pos ! 2 AND 0x7F = 1" "?neg ! 2 AND 0x7F = 1"
    by code_simp+
  have tenths: "rat_of_nat (unat (?pos ! 0) * 256 + unat (?pos ! 1)) / 10 = 326 / 5"
    "rat_of_nat (unat (1 :: 8 word) * 256 + unat (?pos ! 3)) / 10 = 129 / 5"
    "rat_of_nat (unat (?neg ! 0) * 256 + unat (?neg ! 1)) / 10 = 326 / 5"
    "rat_of_nat (unat (1 :: 8 word) * 256 + unat (?neg ! 3)) / 10 = 129 / 5"
    by simp_all
  from reading_decoded [OF a pos, of zero_reading] obtain r w' where
    "dht_read (sensor_world ?pos) 22 zero_reading = Some (DHT_OK, r, w')"
    "humidity r = 4272947 / 65536" "temperature r = 6763315 / 262144"
    unfolding bits tenths f32_round_652 f32_round_258 if_False by blast
  then have 1: "map_option (\<lambda>r. (humidity r, temperature r))
     (reading_of (dht_read (sensor_world ?pos) 22 zero_reading)) =
     Some (4272947 / 65536, 6763315 / 262144)"
    by (simp add: reading_of_def)
  from reading_decoded [OF b neg, of zero_reading] obtain r w' where
    "dht_read (sensor_world ?neg) 22 zero_reading = Some (DHT_OK, r, w')"
    "humidity r = 4272947 / 65536" "temperature r = - (6763315 / 262144)"
    unfolding bits tenths f32_round_652 f32_round_258 if_True by blast
  then have 2: "map_option (\<lambda>r. (humidity r, temperature r))
     (reading_of (dht_read (sensor_world ?neg) 22 zero_reading)) =
     Some (4272947 / 65536, - (6763315 / 262144))"
    by (simp add: reading_of_def)
  have 3: "\<bar>4272947 / 65536 - 652 / 10\<bar> \<le> (1 / 4096 :: rat)"
    "\<bar>6763315 / 262144 - 258 / 10\<bar> \<le> (1 / 4096 :: rat)"
    by simp_all
  from 1 2 3 show ?thesis by blast
qed

text \<open>
  C4. The claim that the checksum field holds \<open>buf[4]\<close> after every call that assembles a
  frame fails for the frame \<open>00 00 00 00 01\<close>: the call returns
  \<^verbatim>\<open>DHT_ERR_BADCHECKSUM\<close> before the field is written, and the field is 0, not 1.
\<close>

theorem checksum_field_counterexample:
  "assembled_frame (sensor_world [0x00, 0x00, 0x00, 0x00, 0x01]) 22 =
     Some [0x00, 0x00, 0x00, 0x00, 0x01] \<and>
   status_of (dht_read (sensor_world [0x00, 0x00, 0x00, 0x00, 0x01]) 22 zero_reading) =
     Some DHT_ERR_BADCHECKSUM \<and>
   map_option checksum
     (reading_of (dht_read (sensor_world [0x00, 0x00, 0x00, 0x00, 0x01]) 22 zero_reading)) =
     Some 0x00 \<and>
   [0x00, 0x00, 0x00, 0x00, 0x01] ! 4 \<noteq> (0x00 :: 8 word)"
proof -
  let ?frame = "[0x00, 0x00, 0x00, 0x00, 0x01] :: 8 word list"
  have a: "assembled_frame (sensor_world ?frame) 22 = Some ?frame"
    by (rule sensor_assembled) simp
  have "\<not> checksum_matches ?frame"
    by (simp add: checksum_matches_def)
  with dht_read_assembled [OF a, of zero_reading] obtain w' where
    "dht_read (sensor_world ?frame) 22 zero_reading =
       Some (DHT_ERR_BADCHECKSUM, zero_reading, w')"
    by auto
  then have "status_of (dht_read (sensor_world ?frame) 22 zero_reading) =
      Some DHT_ERR_BADCHECKSUM"
    "map_option checksum (reading_of (dht_read (sensor_world ?frame) 22 zero_reading)) =
      Some 0x00"
    by (simp_all add: status_of_def reading_of_def zero_reading_def)
  moreover have "?frame ! 4 \<noteq> (0x00 :: 8 word)"
    by simp
  ultimately show ?thesis using a by blast
qed

text \<open>
  C4, amended. After a call of \<^verbatim>\<open>dht_read\<close> that assembles the frame \<open>buf\<close>, the
  checksum field is \<open>buf[4]\<close> when the call returns \<^verbatim>\<open>DHT_OK\<close>; otherwise the call
  returns \<^verbatim>\<open>DHT_ERR_BADCHECKSUM\<close> and the field is 0.
\<close>

theorem checksum_field:
  assumes "assembled_frame w dht = Some buf"
    and "dht_read w dht reading0 = Some (st, reading, w')"
  shows "(st = DHT_OK \<longrightarrow> checksum reading = buf ! 4) \<and>
         (st \<noteq> DHT_OK \<longrightarrow> st = DHT_ERR_BADCHECKSUM \<and> checksum reading = 0x00)"
  using dht_read_assembled [OF assms(1), of reading0] assms(2)
  by (auto simp: parse_buffer_fields zero_reading_def split: if_splits)

theorem checksum_field_witness:
  "map_option checksum
     (reading_of (dht_read (sensor_world [0x02, 0x8C, 0x01, 0x02, 0x91]) 22 zero_reading)) =
     Some 0x91"
proof -
  let ?frame = "[0x02, 0x8C, 0x01, 0x02, 0x91] :: 8 word list"
  have a: "assembled_frame (sensor_world ?frame) 22 = Some ?frame"
    by (rule sensor_assembled) simp
  have "checksum_matches ?frame"
    by (simp add: checksum_matches_def)
  with dht_read_assembled [OF a, of zero_reading] obtain w' where
    run: "dht_read (sensor_world ?frame) 22 zero_reading =
       Some (DHT_OK, parse_buffer zero_reading ?frame, w')"
    by auto
  from checksum_field [OF a run] have "checksum (parse_buffer zero_reading ?frame) = 0x91"
    by simp
  with run show ?thesis
    by (simp add: reading_of_def)
qed

text \<open>
  C10. A call of \<^verbatim>\<open>dht_read\<close> that returns a status other than \<^verbatim>\<open>DHT_OK\<close> leaves
  the caller's reading all zero, whatever it held before.
\<close>

theorem error_reading_zero:
  assumes "dht_read w dht reading0 = Some (st, reading, w')" and "st \<noteq> DHT_OK"
  shows "reading = \<lparr>temperature = 0, humidity = 0, checksum = 0x00\<rparr>"
  using assms unfolding dht_read_unfold zero_reading_def
  by (auto split: prod.splits option.splits if_splits)

theorem error_reading_zero_witness:
  "status_of (dht_read (sensor_world [0x02, 0x8C, 0x01, 0x02, 0x92]) 22
      \<lparr>temperature = 25, humidity = 60, checksum = 0x07\<rparr>) = Some DHT_ERR_BADCHECKSUM \<and>
   reading_of (dht_read (sensor_world [0x02, 0x8C, 0x01, 0x02, 0x92]) 22
      \<lparr>temperature = 25, humidity = 60, checksum = 0x07\<rparr>) =
     Some \<lparr>temperature = 0, humidity = 0, checksum = 0x00\<rparr>"
proof -
  let ?frame = "[0x02, 0x8C, 0x01, 0x02, 0x92] :: 8 word list"
  let ?old = "\<lparr>temperature = 25, humidity = 60, checksum = 0x07\<rparr>"
  have a: "assembled_frame (sensor_world ?frame) 22 = Some ?frame"
    by (rule sensor_assembled) simp
  have "\<not> checksum_matches ?frame"
    by (simp add: checksum_matches_def)
  with dht_read_assembled [OF a, of ?old] obtain r w' where
    run: "dht_read (sensor_world ?frame) 22 ?old = Some (DHT_ERR_BADCHECKSUM, r, w')"
    by auto
  from error_reading_zero [OF run] have "r = \<lparr>temperature = 0, humidity = 0, checksum = 0x00\<rparr>"
    by simp
  with run show ?thesis
    by (simp add: status_of_def reading_of_def)
qed

subsection \<open>Stages, termination and a line that never moves\<close>

lemma await_status:
  "dht_await_data w dht = Some (s, w') \<Longrightarrow> s = DHT_OK \<or> s = DHT_ERR_TIMEOUT"
  unfolding dht_await_data_unfold by (auto split: option.splits if_splits)

lemma first_failure:
  assumes "\<exists>i<4. gpio_results w (gpio_calls w + i) \<noteq> ESP_OK"
  shows "\<exists>i<4. (\<forall>j<i. gpio_results w (gpio_calls w + j) = ESP_OK) \<and>
           gpio_results w (gpio_calls w + i) \<noteq> ESP_OK"
proof -
  define P where "P i \<longleftrightarrow> gpio_results w (gpio_calls w + i) \<noteq> ESP_OK" for i
  from assms obtain i where i: "i < 4" "P i" by (auto simp: P_def)
  define m where "m = (LEAST i. P i)"
  have "P m" "m \<le> i" "\<And>j. j < m \<Longrightarrow> \<not> P j"
    unfolding m_def using i(2) by (auto intro: LeastI Least_le dest: not_less_Least)
  with i(1) show ?thesis
    unfolding P_def by (intro exI [of _ m]) auto
qed

lemma dht_read_stages:
  assumes "dht_request_readings w dht = (DHT_OK, w1)"
  shows "dht_read w dht reading0 =
     (case dht_await_data w1 dht of
        None \<Rightarrow> None
      | Some (s2, w2) \<Rightarrow>
          if s2 = DHT_ERR_TIMEOUT then Some (DHT_ERR_TIMEOUT, zero_reading, w2)
          else (case bit_sequence 40 dht w2 of
                  None \<Rightarrow> None
                | Some (bs, s3, w3) \<Rightarrow>
                    if s3 = DHT_ERR_TIMEOUT then Some (DHT_ERR_TIMEOUT, zero_reading, w3)
                    else if \<not> checksum_matches (frame_of_bits bs)
                      then Some (DHT_ERR_BADCHECKSUM, zero_reading, w3)
                      else Some (DHT_OK, parse_buffer zero_reading (frame_of_bits bs), w3)))"
proof (cases "dht_await_data w1 dht")
  case None
  with assms show ?thesis by (simp add: dht_read_unfold)
next
  case (Some r2)
  obtain s2 w2 where r2: "r2 = (s2, w2)" by (cases r2)
  from await_status [OF Some [unfolded r2]] show ?thesis
  proof
    assume "s2 = DHT_ERR_TIMEOUT"
    with assms Some r2 show ?thesis by (simp add: dht_read_unfold)
  next
    assume s2: "s2 = DHT_OK"
    show ?thesis
    proof (cases "bit_sequence 40 dht w2")
      case None
      with assms Some r2 s2 show ?thesis by (simp add: dht_read_unfold)
    next
      case bits: (Some r3)
      obtain bs s3 w3 where r3: "r3 = (bs, s3, w3)" by (cases r3)
      from bit_sequence_length [OF bits [unfolded r3]]
      have "s3 = DHT_OK \<or> s3 = DHT_ERR_TIMEOUT" by blast
      with assms Some r2 s2 bits r3 show ?thesis
        by (auto simp: dht_read_unfold)
    qed
  qed
qed

lemma returned_status:
  assumes "dht_read w dht reading0 = Some (st, reading, w')"
  shows "(st = DHT_ERR_GPIO \<longleftrightarrow> (\<exists>i<4. gpio_results w (gpio_calls w + i) \<noteq> ESP_OK)) \<and>
         (st = DHT_ERR_TIMEOUT \<longleftrightarrow>
            (\<forall>i<4. gpio_results w (gpio_calls w + i) = ESP_OK) \<and>
            ((\<exists>w2. dht_await_data (request_world dht 4 w) dht = Some (DHT_ERR_TIMEOUT, w2)) \<or>
             (\<exists>w2 bs w3. dht_await_data (request_world dht 4 w) dht = Some (DHT_OK, w2) \<and>
                         bit_sequence 40 dht w2 = Some (bs, DHT_ERR_TIMEOUT, w3)))) \<and>
         (st = DHT_ERR_BADCHECKSUM \<longleftrightarrow>
            (\<exists>buf. assembled_frame w dht = Some buf \<and> \<not> checksum_matches buf)) \<and>
         (st = DHT_OK \<longleftrightarrow>
            (\<exists>buf. assembled_frame w dht = Some buf \<and> checksum_matches buf))"
proof (cases "\<exists>i<4. gpio_results w (gpio_calls w + i) \<noteq> ESP_OK")
  case True
  from first_failure [OF True] obtain i where i: "i < 4"
    "\<forall>j<i. gpio_results w (gpio_calls w + j) = ESP_OK"
    "gpio_results w (gpio_calls w + i) \<noteq> ESP_OK"
    by blast
  from request_returns_gpio [OF this, of dht]
  have wg: "dht_request_readings w dht = (DHT_ERR_GPIO, request_world dht (Suc i) w)" .
  from assms wg have st: "st = DHT_ERR_GPIO"
    by (simp add: dht_read_unfold)
  have none: "assembled_frame w dht = None"
    using wg by (simp add: assembled_frame_unfold)
  from True show ?thesis
    unfolding st none by auto
next
  case False
  then have ok: "\<forall>i<4. gpio_results w (gpio_calls w + i) = ESP_OK" by simp
  from request_returns_ok [OF this, of dht]
  have w1: "dht_request_readings w dht = (DHT_OK, request_world dht 4 w)" .
  let ?w1 = "request_world dht 4 w"
  show ?thesis
  proof (cases "dht_await_data ?w1 dht")
    case None
    with assms w1 show ?thesis by (simp add: dht_read_unfold)
  next
    case (Some r2)
    obtain s2 w2 where r2: "r2 = (s2, w2)" by (cases r2)
    from await_status [OF Some [unfolded r2]] show ?thesis
    proof
      assume s2: "s2 = DHT_ERR_TIMEOUT"
      from assms w1 Some r2 s2 have st: "st = DHT_ERR_TIMEOUT"
        by (simp add: dht_read_unfold)
      have none: "assembled_frame w dht = None"
        using w1 Some r2 s2 by (simp add: assembled_frame_unfold)
      from ok Some r2 s2 show ?thesis
        unfolding st none by auto
    next
      assume s2: "s2 = DHT_OK"
      show ?thesis
      proof (cases "bit_sequence 40 dht w2")
        case None
        with assms w1 Some r2 s2 show ?thesis by (simp add: dht_read_unfold)
      next
        case bits: (Some r3)
        obtain bs s3 w3 where r3: "r3 = (bs, s3, w3)" by (cases r3)
        from bit_sequence_length [OF bits [unfolded r3]]
        have "s3 = DHT_OK \<or> s3 = DHT_ERR_TIMEOUT" by blast
        then show ?thesis
        proof
          assume s3: "s3 = DHT_ERR_TIMEOUT"
          from assms w1 Some r2 s2 bits r3 s3 have st: "st = DHT_ERR_TIMEOUT"
            by (simp add: dht_read_unfold)
          have none: "assembled_frame w dht = None"
            using w1 Some r2 s2 bits r3 s3 by (simp add: assembled_frame_unfold)
          from ok Some r2 s2 bits r3 s3 show ?thesis
            unfolding st none by auto
        next
          assume s3: "s3 = DHT_OK"
          have frame: "assembled_frame w dht = Some (frame_of_bits bs)"
            using w1 Some r2 s2 bits r3 s3 by (simp add: assembled_frame_unfold)
          from assms w1 Some r2 s2 bits r3 s3
          have st: "st = (if checksum_matches (frame_of_bits bs) then DHT_OK
                          else DHT_ERR_BADCHECKSUM)"
            by (simp add: dht_read_unfold split: if_splits)
          from ok Some r2 s2 bits r3 s3 show ?thesis
            unfolding st frame by auto
        qed
      qed
    qed
  qed
qed

text \<open>
  C1. Every call of \<^verbatim>\<open>dht_read\<close> is decided by the first stage that fails. If one of the
  four GPIO writes of the request fails, the request stops at the first failing write, and
  \<^verbatim>\<open>dht_read\<close> returns \<^verbatim>\<open>DHT_ERR_GPIO\<close> with the reading zeroed: the calls up to
  that write have been made and no other, so that the delays and writes after it are
  skipped and neither the level nor the timer is read. If the four writes succeed, the
  handshake follows: the call returns \<^verbatim>\<open>DHT_ERR_TIMEOUT\<close> if the handshake times out
  or if, the handshake done, one of the 40 bit reads times out, in the world that stage
  left; otherwise the frame is assembled, and the call returns \<^verbatim>\<open>DHT_ERR_BADCHECKSUM\<close>
  if the checksum does not match and \<^verbatim>\<open>DHT_OK\<close> with the decoded reading if it does.
  The call fails to return only if the handshake or a bit read does. Conversely, each of
  the four statuses is returned for its own reason only.
\<close>

theorem dht_read_first_failing_stage:
  "(\<forall>i<4. (\<forall>j<i. gpio_results w (gpio_calls w + j) = ESP_OK) \<and>
           gpio_results w (gpio_calls w + i) \<noteq> ESP_OK \<longrightarrow>
      dht_request_readings w dht = (DHT_ERR_GPIO, request_world dht (Suc i) w) \<and>
      dht_read w dht reading0 =
        Some (DHT_ERR_GPIO, zero_reading, request_world dht (Suc i) w)) \<and>
   ((\<forall>i<4. gpio_results w (gpio_calls w + i) = ESP_OK) \<longrightarrow>
      dht_request_readings w dht = (DHT_OK, request_world dht 4 w) \<and>
      dht_read w dht reading0 =
        (case dht_await_data (request_world dht 4 w) dht of
           None \<Rightarrow> None
         | Some (s2, w2) \<Rightarrow>
             if s2 = DHT_ERR_TIMEOUT then Some (DHT_ERR_TIMEOUT, zero_reading, w2)
             else (case bit_sequence 40 dht w2 of
                     None \<Rightarrow> None
                   | Some (bs, s3, w3) \<Rightarrow>
                       if s3 = DHT_ERR_TIMEOUT then Some (DHT_ERR_TIMEOUT, zero_reading, w3)
                       else if \<not> checksum_matches (frame_of_bits bs)
                         then Some (DHT_ERR_BADCHECKSUM, zero_reading, w3)
                         else Some (DHT_OK, parse_buffer zero_reading (frame_of_bits bs),
                                    w3)))) \<and>
   (\<forall>st reading w'. dht_read w dht reading0 = Some (st, reading, w') \<longrightarrow>
      (st = DHT_ERR_GPIO \<longleftrightarrow> (\<exists>i<4. gpio_results w (gpio_calls w + i) \<noteq> ESP_OK)) \<and>
      (st = DHT_ERR_TIMEOUT \<longleftrightarrow>
         (\<forall>i<4. gpio_results w (gpio_calls w + i) = ESP_OK) \<and>
         ((\<exists>w2. dht_await_data (request_world dht 4 w) dht = Some (DHT_ERR_TIMEOUT, w2)) \<or>
          (\<exists>w2 bs w3. dht_await_data (request_world dht 4 w) dht = Some (DHT_OK, w2) \<and>
                      bit_sequence 40 dht w2 = Some (bs, DHT_ERR_TIMEOUT, w3)))) \<and>
      (st = DHT_ERR_BADCHECKSUM \<longleftrightarrow>
         (\<exists>buf. assembled_frame w dht = Some buf \<and> \<not> checksum_matches buf)) \<and>
      (st = DHT_OK \<longleftrightarrow>
         (\<exists>buf. assembled_frame w dht = Some buf \<and> checksum_matches buf)))"
proof (intro conjI allI impI)
  fix i :: nat
  assume "i < 4" and "(\<forall>j<i. gpio_results w (gpio_calls w + j) = ESP_OK) \<and>
           gpio_results w (gpio_calls w + i) \<noteq> ESP_OK"
  then have "dht_request_readings w dht = (DHT_ERR_GPIO, request_world dht (Suc i) w)"
    by (intro request_returns_gpio) simp_all
  then show "dht_request_readings w dht = (DHT_ERR_GPIO, request_world dht (Suc i) w)"
    and "dht_read w dht reading0 =
        Some (DHT_ERR_GPIO, zero_reading, request_world dht (Suc i) w)"
    by (simp_all add: dht_read_unfold)
next
  assume ok: "\<forall>i<4. gpio_results w (gpio_calls w + i) = ESP_OK"
  then show req: "dht_request_readings w dht = (DHT_OK, request_world dht 4 w)"
    by (rule request_returns_ok)
  show "dht_read w dht reading0 =
        (case dht_await_data (request_world dht 4 w) dht of
           None \<Rightarrow> None
         | Some (s2, w2) \<Rightarrow>
             if s2 = DHT_ERR_TIMEOUT then Some (DHT_ERR_TIMEOUT, zero_reading, w2)
             else (case bit_sequence 40 dht w2 of
                     None \<Rightarrow> None
                   | Some (bs, s3, w3) \<Rightarrow>
                       if s3 = DHT_ERR_TIMEOUT then Some (DHT_ERR_TIMEOUT, zero_reading, w3)
                       else if \<not> checksum_matches (frame_of_bits bs)
                         then Some (DHT_ERR_BADCHECKSUM, zero_reading, w3)
                         else Some (DHT_OK, parse_buffer zero_reading (frame_of_bits bs),
                                    w3)))"
    using req by (rule dht_read_stages)
next
  fix st reading w'
  assume "dht_read w dht reading0 = Some (st, reading, w')"
  from returned_status [OF this]
  show "st = DHT_ERR_GPIO \<longleftrightarrow> (\<exists>i<4. gpio_results w (gpio_calls w + i) \<noteq> ESP_OK)"
    and "st = DHT_ERR_TIMEOUT \<longleftrightarrow>
         (\<forall>i<4. gpio_results w (gpio_calls w + i) = ESP_OK) \<and>
         ((\<exists>w2. dht_await_data (request_world dht 4 w) dht = Some (DHT_ERR_TIMEOUT, w2)) \<or>
          (\<exists>w2 bs w3. dht_await_data (request_world dht 4 w) dht = Some (DHT_OK, w2) \<and>
                      bit_sequence 40 dht w2 = Some (bs, DHT_ERR_TIMEOUT, w3)))"
    and "st = DHT_ERR_BADCHECKSUM \<longleftrightarrow>
         (\<exists>buf. assembled_frame w dht = Some buf \<and> \<not> checksum_matches buf)"
    and "st = DHT_OK \<longleftrightarrow>
         (\<exists>buf. assembled_frame w dht = Some buf \<and> checksum_matches buf)"
    by blast+
qed

lemma wait_total:
  assumes clock: "\<forall>k. timer_values w k < timer_values w (Suc k)"
    and entry: "entry < timer_values w (timer_calls w)"
    and timeout: "0 < timeout"
  shows "\<exists>s w' l t. wait_while_level dht lvl entry timeout w = Some (s, w') \<and>
           (s = DHT_OK \<or> s = DHT_ERR_TIMEOUT) \<and> advanced w 0 l t w' \<and>
           l \<le> nat timeout \<and> t \<le> nat timeout \<and>
           (s = DHT_OK \<longrightarrow> (\<exists>k < nat timeout. line_levels w (level_calls w + k) \<noteq> lvl))"
proof -
  from wait_terminates [OF clock, of timeout entry lvl dht]
  obtain k y where k: "k \<le> nat (timeout - (timer_values w (timer_calls w) - entry))"
    and run: "wait_while_level dht lvl entry timeout w = Some y"
    and y: "line_levels w (level_calls w + k) \<noteq> lvl \<and>
              y = (DHT_OK, snd (gpio_get_level (polled dht k w) dht))
            \<or> line_levels w (level_calls w + k) = lvl \<and>
              timeout \<le> timer_values w (timer_calls w + k) - entry \<and>
              y = (DHT_ERR_TIMEOUT,
                   snd (esp_timer_get_time (snd (gpio_get_level (polled dht k w) dht))))"
    by blast
  from k entry timeout have bound: "Suc k \<le> nat timeout" "k \<le> nat timeout" "k < nat timeout"
    by linarith+
  from y show ?thesis
  proof
    assume a: "line_levels w (level_calls w + k) \<noteq> lvl \<and>
              y = (DHT_OK, snd (gpio_get_level (polled dht k w) dht))"
    let ?w' = "snd (gpio_get_level (polled dht k w) dht)"
    have "wait_while_level dht lvl entry timeout w = Some (DHT_OK, ?w')"
      using run a by simp
    moreover have "advanced w 0 (Suc k) k ?w'"
      by (rule advanced_get_level_polled)
    moreover have "\<exists>k < nat timeout. line_levels w (level_calls w + k) \<noteq> lvl"
      using a bound(3) by blast
    ultimately show ?thesis
      using bound(1,2) by blast
  next
    assume a: "line_levels w (level_calls w + k) = lvl \<and>
              timeout \<le> timer_values w (timer_calls w + k) - entry \<and>
              y = (DHT_ERR_TIMEOUT,
                   snd (esp_timer_get_time (snd (gpio_get_level (polled dht k w) dht))))"
    let ?w' = "snd (esp_timer_get_time (snd (gpio_get_level (polled dht k w) dht)))"
    have "wait_while_level dht lvl entry timeout w = Some (DHT_ERR_TIMEOUT, ?w')"
      using run a by simp
    moreover have "advanced w 0 (Suc k) (Suc k) ?w'"
      by (rule advanced_get_time_polled)
    moreover have "DHT_ERR_TIMEOUT \<noteq> DHT_OK"
      by simp
    ultimately show ?thesis
      using bound(1) by blast
  qed
qed

lemma two_waits_total:
  assumes clock: "\<forall>k. timer_values w k < timer_values w (Suc k)"
    and t1: "0 < t1" and t2: "0 < t2"
  shows "\<exists>s1 w2. wait_while_level dht 0 (timer_values w (timer_calls w)) t1
                     (snd (esp_timer_get_time w)) = Some (s1, w2) \<and>
           (\<exists>l t. advanced w 0 l t w2 \<and> l \<le> nat t1 \<and> t \<le> 1 + nat t1) \<and>
           (s1 = DHT_OK \<or> s1 = DHT_ERR_TIMEOUT) \<and>
           (\<exists>s2 w4. wait_while_level dht 1 (timer_values w2 (timer_calls w2)) t2
                     (snd (esp_timer_get_time w2)) = Some (s2, w4) \<and>
              (s2 = DHT_OK \<or> s2 = DHT_ERR_TIMEOUT) \<and>
              (\<exists>l t. advanced w 0 l t w4 \<and> l \<le> nat t1 + nat t2 \<and> t \<le> 2 + nat t1 + nat t2))"
proof -
  let ?w1 = "snd (esp_timer_get_time w)"
  have c1: "\<forall>k. timer_values ?w1 k < timer_values ?w1 (Suc k)"
    using clock by simp
  have e1: "timer_values w (timer_calls w) < timer_values ?w1 (timer_calls ?w1)"
    using clock by simp
  from wait_total [OF c1 e1 t1, of dht 0]
  obtain s1 w2 l1 ta where 1: "wait_while_level dht 0 (timer_values w (timer_calls w)) t1 ?w1 =
      Some (s1, w2)" "s1 = DHT_OK \<or> s1 = DHT_ERR_TIMEOUT" "advanced ?w1 0 l1 ta w2"
    "l1 \<le> nat t1" "ta \<le> nat t1"
    by blast
  have a2: "advanced w 0 l1 (Suc ta) w2"
    using 1(3) by (simp add: advanced_def)
  let ?w3 = "snd (esp_timer_get_time w2)"
  have c2: "\<forall>k. timer_values ?w3 k < timer_values ?w3 (Suc k)"
    using clock a2 by (simp add: advanced_def)
  have e2: "timer_values w2 (timer_calls w2) < timer_values ?w3 (timer_calls ?w3)"
    using clock a2 by (simp add: advanced_def)
  from wait_total [OF c2 e2 t2, of dht 1]
  obtain s2 w4 l2 tb where 2: "wait_while_level dht 1 (timer_values w2 (timer_calls w2)) t2 ?w3 =
      Some (s2, w4)" "s2 = DHT_OK \<or> s2 = DHT_ERR_TIMEOUT" "advanced ?w3 0 l2 tb w4"
    "l2 \<le> nat t2" "tb \<le> nat t2"
    by blast
  have a4: "advanced w 0 (l1 + l2) (Suc (Suc (ta + tb))) w4"
    using a2 2(3) by (simp add: advanced_def)
  have b2: "l1 \<le> nat t1 \<and> Suc ta \<le> 1 + nat t1"
    using 1(4,5) by simp
  have b4: "l1 + l2 \<le> nat t1 + nat t2 \<and> Suc (Suc (ta + tb)) \<le> 2 + nat t1 + nat t2"
    using 1(4,5) 2(4,5) by simp
  from 1(1,2) 2(1,2) a2 b2 a4 b4 show ?thesis by blast
qed

lemma await_total:
  assumes clock: "\<forall>k. timer_values w k < timer_values w (Suc k)"
  shows "\<exists>s w' l t. dht_await_data w dht = Some (s, w') \<and> advanced w 0 l t w' \<and>
           l \<le> 180 \<and> t \<le> 182"
proof -
  from two_waits_total [OF clock, of 90 90 dht]
  obtain s1 w2 s2 w4 la ta lb tb where
    1: "wait_while_level dht 0 (timer_values w (timer_calls w)) 90 (snd (esp_timer_get_time w)) =
      Some (s1, w2)" "advanced w 0 la ta w2" "la \<le> 90" "ta \<le> 91"
    and 2: "wait_while_level dht 1 (timer_values w2 (timer_calls w2)) 90
      (snd (esp_timer_get_time w2)) = Some (s2, w4)" "advanced w 0 lb tb w4" "lb \<le> 180" "tb \<le> 182"
    by auto
  show ?thesis
  proof (cases "s1 = DHT_OK")
    case False
    with 1 have "dht_await_data w dht = Some (DHT_ERR_TIMEOUT, w2)"
      by (simp add: dht_await_data_unfold)
    moreover have "la \<le> 180" "ta \<le> 182"
      using 1(3,4) by simp_all
    ultimately show ?thesis
      using 1(2) by blast
  next
    case True
    with 1 2 have "dht_await_data w dht = Some (if s2 \<noteq> DHT_OK then DHT_ERR_TIMEOUT else DHT_OK, w4)"
      by (simp add: dht_await_data_unfold)
    with 2(2,3,4) show ?thesis
      by blast
  qed
qed

lemma read_bit_total:
  assumes clock: "\<forall>k. timer_values w k < timer_values w (Suc k)"
  shows "\<exists>s b' w' l t. dht_read_bit w dht b = Some (s, b', w') \<and> advanced w 0 l t w' \<and>
           l \<le> 160 \<and> t \<le> 163"
proof -
  from two_waits_total [OF clock, of 70 90 dht]
  obtain s1 w2 s2 w4 la ta lb tb where
    1: "wait_while_level dht 0 (timer_values w (timer_calls w)) 70 (snd (esp_timer_get_time w)) =
      Some (s1, w2)" "advanced w 0 la ta w2" "la \<le> 70" "ta \<le> 71"
    and 2: "wait_while_level dht 1 (timer_values w2 (timer_calls w2)) 90
      (snd (esp_timer_get_time w2)) = Some (s2, w4)" "advanced w 0 lb tb w4" "lb \<le> 160" "tb \<le> 162"
    by auto
  show ?thesis
  proof (cases "s1 = DHT_OK")
    case False
    with 1 have "dht_read_bit w dht b = Some (DHT_ERR_TIMEOUT, b, w2)"
      by (simp add: dht_read_bit_unfold)
    moreover have "la \<le> 160" "ta \<le> 163"
      using 1(3,4) by simp_all
    ultimately show ?thesis
      using 1(2) by blast
  next
    case True
    note s1 = this
    show ?thesis
    proof (cases "s2 = DHT_OK")
      case False
      with s1 1 2 have "dht_read_bit w dht b = Some (DHT_ERR_TIMEOUT, b, w4)"
        by (simp add: dht_read_bit_unfold)
      moreover have "tb \<le> 163"
        using 2(4) by simp
      ultimately show ?thesis
        using 2(2,3) by blast
    next
      case True
      with s1 1 2 have "dht_read_bit w dht b =
          Some (DHT_OK, 40 \<le> timer_values w4 (timer_calls w4) - timer_values w2 (timer_calls w2),
                snd (esp_timer_get_time w4))"
        by (simp add: dht_read_bit_unfold)
      moreover have "advanced w 0 lb (Suc tb) (snd (esp_timer_get_time w4))"
        using 2(2) by (simp add: advanced_def)
      moreover have "Suc tb \<le> 163"
        using 2(4) by simp
      ultimately show ?thesis
        using 2(3) by blast
    qed
  qed
qed

lemma bit_sequence_total:
  assumes clock: "\<forall>k. timer_values w k < timer_values w (Suc k)"
  shows "\<exists>bs s w' l t. bit_sequence n dht w = Some (bs, s, w') \<and> advanced w 0 l t w' \<and>
           l \<le> 160 * n \<and> t \<le> 163 * n"
  using clock
proof (induction n arbitrary: w)
  case 0
  show ?case by simp
next
  case (Suc n)
  from read_bit_total [OF Suc.prems, of dht False]
  obtain s b' w1 l1 t1 where 1: "dht_read_bit w dht False = Some (s, b', w1)"
    "advanced w 0 l1 t1 w1" "l1 \<le> 160" "t1 \<le> 163"
    by blast
  show ?case
  proof (cases "s = DHT_OK")
    case False
    with 1 have "bit_sequence (Suc n) dht w = Some ([], DHT_ERR_TIMEOUT, w1)"
      by simp
    moreover have "l1 \<le> 160 * Suc n" "t1 \<le> 163 * Suc n"
      using 1(3,4) by simp_all
    ultimately show ?thesis
      using 1(2) by blast
  next
    case True
    let ?w2 = "ets_delay_us w1 10"
    have a2: "advanced w 0 l1 t1 ?w2"
      using 1(2) by (simp add: advanced_def)
    then have "\<forall>k. timer_values ?w2 k < timer_values ?w2 (Suc k)"
      using Suc.prems by (simp add: advanced_def)
    from Suc.IH [OF this]
    obtain bs s' w' l t where 2: "bit_sequence n dht ?w2 = Some (bs, s', w')"
      "advanced ?w2 0 l t w'" "l \<le> 160 * n" "t \<le> 163 * n"
      by blast
    have "bit_sequence (Suc n) dht w = Some (b' # bs, s', w')"
      using 1(1) True 2(1) by simp
    moreover have "advanced w 0 (l1 + l) (t1 + t) w'"
      using a2 2(2) by (simp add: advanced_def)
    moreover have "l1 + l \<le> 160 * Suc n" "t1 + t \<le> 163 * Suc n"
      using 1(3,4) 2(3,4) by simp_all
    ultimately show ?thesis
      by blast
  qed
qed

lemma sensor_times_increasing: "\<forall>k. sensor_times bits k < sensor_times bits (Suc k)"
proof
  fix k
  show "sensor_times bits k < sensor_times bits (Suc k)"
  proof (cases "k < 4")
    case True
    then consider "k < 3" | "k = 3" by linarith
    then show ?thesis
    proof cases
      case 1
      then show ?thesis by (simp add: sensor_times_def)
    next
      case 2
      with sensor_times_at [of 0 bits 0] show ?thesis
        by (simp add: sensor_times_def)
    qed
  next
    case False
    define i where "i = (k - 4) div 5"
    define j where "j = (k - 4) mod 5"
    have k: "k = 4 + 5 * i + j" and j: "j < 5"
      using False by (simp_all add: i_def j_def)
    have now: "sensor_times bits k =
           (if j < 3 then 160 + 130 * int i + 25 * int j
            else if j = 3 then 160 + 130 * int i + 65
            else 160 + 130 * int i + 50 + (if i < length bits \<and> bits ! i then 70 else 30))"
      using sensor_times_at [OF j, of bits i] by (simp only: k)
    show ?thesis
    proof (cases "j = 4")
      case True
      have sk: "Suc k = 4 + 5 * Suc i + 0"
        using k True by simp
      have "sensor_times bits (Suc k) = 160 + 130 * int (Suc i)"
        using sensor_times_at [of 0 bits "Suc i"] by (simp only: sk) simp
      with now True show ?thesis by simp
    next
      case False
      with j have j': "Suc j < 5" by simp
      have sk: "Suc k = 4 + 5 * i + Suc j"
        using k by simp
      have "sensor_times bits (Suc k) =
           (if Suc j < 3 then 160 + 130 * int i + 25 * int (Suc j)
            else if Suc j = 3 then 160 + 130 * int i + 65
            else 160 + 130 * int i + 50 + (if i < length bits \<and> bits ! i then 70 else 30))"
        using sensor_times_at [OF j', of bits i] by (simp only: sk)
      with now j' show ?thesis by (auto split: if_splits)
    qed
  qed
qed

lemma request_advanced:
  "\<exists>s w1 g. dht_request_readings w dht = (s, w1) \<and> advanced w g 0 0 w1 \<and> g \<le> 4"
proof (cases "\<exists>i<4. gpio_results w (gpio_calls w + i) \<noteq> ESP_OK")
  case True
  from first_failure [OF True] obtain i where i: "i < 4"
    "\<forall>j<i. gpio_results w (gpio_calls w + j) = ESP_OK"
    "gpio_results w (gpio_calls w + i) \<noteq> ESP_OK"
    by blast
  from request_fail [OF this, of dht] i(1) show ?thesis
    by (metis Suc_leI)
next
  case False
  then have "\<forall>i<4. gpio_results w (gpio_calls w + i) = ESP_OK" by simp
  from request_ok [OF this, of dht] show ?thesis
    by (metis order_refl)
qed

lemma dht_read_total:
  assumes clock: "\<forall>k. timer_values w k < timer_values w (Suc k)"
  shows "\<exists>st reading w' g l t. dht_read w dht reading0 = Some (st, reading, w') \<and>
           advanced w g l t w' \<and> g \<le> 4 \<and> l \<le> 6580 \<and> t \<le> 6702"
proof -
  from request_advanced [of w dht] obtain s1 w1 g where
    1: "dht_request_readings w dht = (s1, w1)" "advanced w g 0 0 w1" "g \<le> 4"
    by blast
  show ?thesis
  proof (cases "s1 = DHT_OK")
    case False
    with 1(1) have "dht_read w dht reading0 = Some (DHT_ERR_GPIO, zero_reading, w1)"
      by (simp add: dht_read_unfold)
    moreover have "(0::nat) \<le> 6580" "(0::nat) \<le> 6702"
      by simp_all
    ultimately show ?thesis
      using 1(2,3) by blast
  next
    case True
    note s1 = this
    have c1: "\<forall>k. timer_values w1 k < timer_values w1 (Suc k)"
      using clock 1(2) by (simp add: advanced_def)
    from await_total [OF c1, of dht] obtain s2 w2 l2 t2 where
      2: "dht_await_data w1 dht = Some (s2, w2)" "advanced w1 0 l2 t2 w2" "l2 \<le> 180" "t2 \<le> 182"
      by blast
    have a2: "advanced w g l2 t2 w2"
      using 1(2) 2(2) by (simp add: advanced_def)
    show ?thesis
    proof (cases "s2 = DHT_OK")
      case False
      with 1(1) s1 2(1) have "dht_read w dht reading0 = Some (DHT_ERR_TIMEOUT, zero_reading, w2)"
        by (simp add: dht_read_unfold)
      moreover have "l2 \<le> 6580" "t2 \<le> 6702"
        using 2(3,4) by simp_all
      ultimately show ?thesis
        using a2 1(3) by blast
    next
      case True
      note s2 = this
      have c2: "\<forall>k. timer_values w2 k < timer_values w2 (Suc k)"
        using clock a2 by (simp add: advanced_def)
      from bit_sequence_total [OF c2, of 40 dht] obtain bs s3 w3 l3 t3 where
        3: "bit_sequence 40 dht w2 = Some (bs, s3, w3)" "advanced w2 0 l3 t3 w3"
        "l3 \<le> 160 * 40" "t3 \<le> 163 * 40"
        by blast
      have a3: "advanced w g (l2 + l3) (t2 + t3) w3"
        using a2 3(2) by (simp add: advanced_def)
      have b3: "l2 + l3 \<le> 6580" "t2 + t3 \<le> 6702"
        using 2(3,4) 3(3,4) by simp_all
      have "\<exists>st reading. dht_read w dht reading0 = Some (st, reading, w3)"
        using 1(1) s1 2(1) s2 3(1) by (simp add: dht_read_unfold)
      with a3 b3 1(3) show ?thesis
        by blast
    qed
  qed
qed

lemma await_low_timeout:
  assumes "keeps_waiting w 0 (timer_values w (timer_calls w)) 90
             (level_calls w) (Suc (timer_calls w)) k"
    and "line_levels w (level_calls w + k) = 0"
    and "90 \<le> timer_values w (Suc (timer_calls w) + k) - timer_values w (timer_calls w)"
  shows "\<exists>w'. dht_await_data w dht = Some (DHT_ERR_TIMEOUT, w') \<and>
              advanced w 0 (Suc k) (k + 2) w'"
proof -
  let ?t0 = "timer_values w (timer_calls w)"
  let ?w1 = "snd (esp_timer_get_time w)"
  let ?w2 = "snd (esp_timer_get_time (snd (gpio_get_level (polled dht k ?w1) dht)))"
  have "wait_while_level dht 0 ?t0 90 ?w1 = Some (DHT_ERR_TIMEOUT, ?w2)"
    using assms by (intro wait_exit_timeout) (simp_all add: keeps_waiting_cong [of ?w1 w])
  then have "dht_await_data w dht = Some (DHT_ERR_TIMEOUT, ?w2)"
    by (simp add: dht_await_data_unfold)
  moreover have "advanced w 0 (Suc k) (k + 2) ?w2"
    by (simp add: advanced_def)
  ultimately show ?thesis by blast
qed

text \<open>
  C9. The claim that, with a clock that increases from read to read, every busy-wait loop
  is left within its timeout bound and the whole call within the sum of the bounds, fails
  when the clock advances by one second between two reads. With the line held low, the
  first loop of the handshake, whose bound is \<open>80 + 10 = 90\<close>, is left with
  \<^verbatim>\<open>DHT_ERR_TIMEOUT\<close> when the clock it last read is 1000000 microseconds past its
  \<^verbatim>\<open>uptime_entry\<close>, and \<^verbatim>\<open>dht_read\<close> returns with 1000000 microseconds between its first
  and its last read of the clock, which is more than the sum
  \<open>2 * 90 + 40 * (70 + 90) = 6580\<close> of all bounds: a bound is tested only when the clock
  is read.
\<close>

theorem busy_wait_elapsed_counterexample:
  "(\<forall>k. timer_values (boot_world (\<lambda>k. ESP_OK) (\<lambda>k. 0) (\<lambda>k. 1000000 * int k)) k <
        timer_values (boot_world (\<lambda>k. ESP_OK) (\<lambda>k. 0) (\<lambda>k. 1000000 * int k)) (Suc k)) \<and>
   map_option
     (\<lambda>(s, w'). (s, timer_values w' (timer_calls w' - 1) -
                     fst (esp_timer_get_time
                            (boot_world (\<lambda>k. ESP_OK) (\<lambda>k. 0) (\<lambda>k. 1000000 * int k)))))
     (wait_while_level 22 0
        (fst (esp_timer_get_time (boot_world (\<lambda>k. ESP_OK) (\<lambda>k. 0) (\<lambda>k. 1000000 * int k))))
        (spec_us_in_ready_signal_half + 10)
        (snd (esp_timer_get_time (boot_world (\<lambda>k. ESP_OK) (\<lambda>k. 0) (\<lambda>k. 1000000 * int k))))) =
     Some (DHT_ERR_TIMEOUT, 1000000) \<and>
   map_option
     (\<lambda>(s, r, w'). (s, level_calls w', timer_calls w',
                        timer_values w' (timer_calls w' - 1) - timer_values w' 0))
     (dht_read (boot_world (\<lambda>k. ESP_OK) (\<lambda>k. 0) (\<lambda>k. 1000000 * int k)) 22 zero_reading) =
     Some (DHT_ERR_TIMEOUT, 1, 2, 1000000) \<and>
   spec_us_in_ready_signal_half + 10 < 1000000 \<and>
   2 * (spec_us_in_ready_signal_half + 10) +
     40 * ((spec_us_in_data_bit_low + 20) + (spec_us_in_data_bit_high + 20)) < 1000000"
proof -
  let ?w = "boot_world (\<lambda>k. ESP_OK) (\<lambda>k. 0) (\<lambda>k. 1000000 * int k)"
  let ?w1 = "snd (esp_timer_get_time ?w)"
  have entry: "fst (esp_timer_get_time ?w) = 0"
    by (simp add: esp_timer_get_time_def)
  have "wait_while_level 22 0 0 90 ?w1 =
      Some (DHT_ERR_TIMEOUT, snd (esp_timer_get_time (snd (gpio_get_level (polled 22 0 ?w1) 22))))"
    by (intro wait_exit_timeout) simp_all
  then have 1: "map_option
     (\<lambda>(s, w'). (s, timer_values w' (timer_calls w' - 1) - fst (esp_timer_get_time ?w)))
     (wait_while_level 22 0 (fst (esp_timer_get_time ?w)) (spec_us_in_ready_signal_half + 10) ?w1) =
     Some (DHT_ERR_TIMEOUT, 1000000)"
    unfolding entry by (simp add: spec_us_in_ready_signal_half_def)
  have req: "dht_request_readings ?w 22 = (DHT_OK, request_world 22 4 ?w)"
    by (intro request_returns_ok) simp
  let ?w2 = "request_world 22 4 ?w"
  have "keeps_waiting ?w2 0 (timer_values ?w2 (timer_calls ?w2)) 90
             (level_calls ?w2) (Suc (timer_calls ?w2)) 0"
    "line_levels ?w2 (level_calls ?w2 + 0) = 0"
    "90 \<le> timer_values ?w2 (Suc (timer_calls ?w2) + 0) - timer_values ?w2 (timer_calls ?w2)"
    by simp_all
  from await_low_timeout [OF this, of 22]
  obtain w' where w': "dht_await_data ?w2 22 = Some (DHT_ERR_TIMEOUT, w')"
    "advanced ?w2 0 (Suc 0) (0 + 2) w'"
    by blast
  have "dht_read ?w 22 zero_reading = Some (DHT_ERR_TIMEOUT, zero_reading, w')"
    using w'(1) by (simp add: dht_read_stages [OF req])
  moreover have "level_calls w' = 1" "timer_calls w' = 2"
    "timer_values w' = (\<lambda>k. 1000000 * int k)"
    using w'(2) by (simp_all add: advanced_def)
  ultimately have 2: "map_option
     (\<lambda>(s, r, w'). (s, level_calls w', timer_calls w',
                        timer_values w' (timer_calls w' - 1) - timer_values w' 0))
     (dht_read ?w 22 zero_reading) = Some (DHT_ERR_TIMEOUT, 1, 2, 1000000)"
    by simp
  have 3: "spec_us_in_ready_signal_half + 10 < 1000000"
    "2 * (spec_us_in_ready_signal_half + 10) +
     40 * ((spec_us_in_data_bit_low + 20) + (spec_us_in_data_bit_high + 20)) < 1000000"
    by (simp_all add: spec_us_in_ready_signal_half_def spec_us_in_data_bit_low_def
        spec_us_in_data_bit_high_def)
  have 0: "\<forall>k. timer_values ?w k < timer_values ?w (Suc k)"
    by simp
  from 0 1 2 3 show ?thesis by blast
qed

text \<open>
  C9, amended. When every read of the timer gives a larger value than the read before, a
  busy-wait loop entered after its \<^verbatim>\<open>uptime_entry\<close> was sampled returns after at most
  \<open>timeout_usec\<close> reads of the level and of the timer, and \<^verbatim>\<open>dht_read\<close> returns a status
  after at most \<open>2 * 90 + 40 * (70 + 90) = 6580\<close> reads of the level and
  \<open>2 * 91 + 40 * 163 = 6702\<close> reads of the timer.
\<close>

theorem dht_read_terminates:
  assumes "\<forall>k. timer_values w k < timer_values w (Suc k)"
  shows "(\<exists>st reading w'. dht_read w dht reading0 = Some (st, reading, w') \<and>
            level_calls w' \<le> level_calls w + 6580 \<and>
            timer_calls w' \<le> timer_calls w + 6702) \<and>
         (\<forall>lvl uptime_entry timeout_usec.
            0 < timeout_usec \<and> uptime_entry < timer_values w (timer_calls w) \<longrightarrow>
            (\<exists>s w'. wait_while_level dht lvl uptime_entry timeout_usec w = Some (s, w') \<and>
                    level_calls w' \<le> level_calls w + nat timeout_usec \<and>
                    timer_calls w' \<le> timer_calls w + nat timeout_usec))"
proof (intro conjI allI impI)
  from dht_read_total [OF assms, of dht reading0]
  obtain st reading w' g l t where "dht_read w dht reading0 = Some (st, reading, w')"
    "advanced w g l t w'" "l \<le> 6580" "t \<le> 6702"
    by blast
  then show "\<exists>st reading w'. dht_read w dht reading0 = Some (st, reading, w') \<and>
            level_calls w' \<le> level_calls w + 6580 \<and>
            timer_calls w' \<le> timer_calls w + 6702"
    by (auto simp: advanced_def)
next
  fix lvl uptime_entry timeout_usec :: int
  assume a: "0 < timeout_usec \<and> uptime_entry < timer_values w (timer_calls w)"
  from wait_total [OF assms, of uptime_entry timeout_usec dht lvl] a
  obtain s w' l t where "wait_while_level dht lvl uptime_entry timeout_usec w = Some (s, w')"
    "advanced w 0 l t w'" "l \<le> nat timeout_usec" "t \<le> nat timeout_usec"
    by blast
  then show "\<exists>s w'. wait_while_level dht lvl uptime_entry timeout_usec w = Some (s, w') \<and>
                    level_calls w' \<le> level_calls w + nat timeout_usec \<and>
                    timer_calls w' \<le> timer_calls w + nat timeout_usec"
    by (auto simp: advanced_def)
qed

theorem dht_read_terminates_witness:
  "(\<forall>k. timer_values (sensor_world [0x02, 0x8C, 0x01, 0x02, 0x91]) k <
        timer_values (sensor_world [0x02, 0x8C, 0x01, 0x02, 0x91]) (Suc k)) \<and>
   (\<exists>st reading w'.
      dht_read (sensor_world [0x02, 0x8C, 0x01, 0x02, 0x91]) 22 zero_reading =
        Some (st, reading, w') \<and>
      level_calls w' \<le> 6580 \<and> timer_calls w' \<le> 6702)"
proof -
  let ?w = "sensor_world [0x02, 0x8C, 0x01, 0x02, 0x91]"
  have clock: "\<forall>k. timer_values ?w k < timer_values ?w (Suc k)"
    unfolding sensor_world_def boot_world_fields by (rule sensor_times_increasing)
  from dht_read_terminates [OF clock, of 22 zero_reading] clock show ?thesis
    by (simp add: sensor_world_def)
qed

lemma init_ok:
  assumes "gpio_results w (gpio_calls w) = ESP_OK" and "gpio_results w (Suc (gpio_calls w)) = ESP_OK"
  shows "\<exists>w0. dht_init w dht = (DHT_OK, w0) \<and> advanced w 2 0 0 w0"
  using assms
  by (simp add: dht_init_def gpio_set_direction_def gpio_set_level_def advanced_def)

text \<open>
  C8. When the six GPIO writes of \<^verbatim>\<open>dht_init\<close> and of the request succeed, \<^verbatim>\<open>dht_init\<close>
  returns \<^verbatim>\<open>DHT_OK\<close>. If then the line is low at every level read of the first
  handshake wait, up to the one at which the elapsed time has reached the bound
  \<open>80 + 10 = 90\<close>, the following \<^verbatim>\<open>dht_read\<close> returns \<^verbatim>\<open>DHT_ERR_TIMEOUT\<close> at that
  read of the timer, with the reading zeroed. If the line is high, the first wait ends at
  its first level read, and if the line is still high at every level read of the second
  wait, up to the one at which the elapsed time has reached 90, \<^verbatim>\<open>dht_read\<close> returns
  \<^verbatim>\<open>DHT_ERR_TIMEOUT\<close> there. The clock may stand still between reads and the line may
  move after the bound.
\<close>

theorem stuck_line_times_out:
  assumes gpio: "\<forall>i<6. gpio_results w (gpio_calls w + i) = ESP_OK"
  shows "\<exists>w0. dht_init w dht = (DHT_OK, w0) \<and>
           (keeps_waiting w 0 (timer_values w (timer_calls w)) 90
              (level_calls w) (timer_calls w + 1) k \<and>
            line_levels w (level_calls w + k) = 0 \<and>
            90 \<le> timer_values w (timer_calls w + 1 + k) - timer_values w (timer_calls w) \<longrightarrow>
              (\<exists>w'. dht_read w0 dht reading0 = Some (DHT_ERR_TIMEOUT, zero_reading, w') \<and>
                    level_calls w' = level_calls w + k + 1 \<and>
                    timer_calls w' = timer_calls w + k + 2)) \<and>
           (line_levels w (level_calls w) = 1 \<and>
            keeps_waiting w 1 (timer_values w (timer_calls w + 1)) 90
              (level_calls w + 1) (timer_calls w + 2) k \<and>
            line_levels w (level_calls w + 1 + k) = 1 \<and>
            90 \<le> timer_values w (timer_calls w + 2 + k) - timer_values w (timer_calls w + 1) \<longrightarrow>
              (\<exists>w'. dht_read w0 dht reading0 = Some (DHT_ERR_TIMEOUT, zero_reading, w') \<and>
                    level_calls w' = level_calls w + k + 2 \<and>
                    timer_calls w' = timer_calls w + k + 3))"
proof -
  have g: "gpio_results w (gpio_calls w + i) = ESP_OK" if "i < 6" for i
    using gpio that by blast
  from init_ok [of w dht] g [of 0] g [of 1]
  obtain w0 where w0: "dht_init w dht = (DHT_OK, w0)" "advanced w 2 0 0 w0"
    by auto
  have "\<forall>i<4. gpio_results w0 (gpio_calls w0 + i) = ESP_OK"
  proof (intro allI impI)
    fix i :: nat assume "i < 4"
    then have "gpio_results w (gpio_calls w + (2 + i)) = ESP_OK"
      by (intro g) simp
    with w0(2) show "gpio_results w0 (gpio_calls w0 + i) = ESP_OK"
      by (simp add: advanced_def ac_simps)
  qed
  from request_returns_ok [OF this, of dht]
  have req: "dht_request_readings w0 dht = (DHT_OK, request_world dht 4 w0)" .
  let ?w1 = "request_world dht 4 w0"
  have w1: "line_levels ?w1 = line_levels w" "timer_values ?w1 = timer_values w"
    "level_calls ?w1 = level_calls w" "timer_calls ?w1 = timer_calls w"
    using w0(2) by (simp_all add: advanced_def)
  have low: "\<exists>w'. dht_read w0 dht reading0 = Some (DHT_ERR_TIMEOUT, zero_reading, w') \<and>
                    level_calls w' = level_calls w + k + 1 \<and>
                    timer_calls w' = timer_calls w + k + 2"
    if a: "keeps_waiting w 0 (timer_values w (timer_calls w)) 90
              (level_calls w) (timer_calls w + 1) k \<and>
            line_levels w (level_calls w + k) = 0 \<and>
            90 \<le> timer_values w (timer_calls w + 1 + k) - timer_values w (timer_calls w)"
  proof -
    have "keeps_waiting ?w1 0 (timer_values ?w1 (timer_calls ?w1)) 90
             (level_calls ?w1) (Suc (timer_calls ?w1)) k"
      "line_levels ?w1 (level_calls ?w1 + k) = 0"
      "90 \<le> timer_values ?w1 (Suc (timer_calls ?w1) + k) - timer_values ?w1 (timer_calls ?w1)"
      using a w1 by (simp_all add: keeps_waiting_cong [OF w1(1,2)])
    from await_low_timeout [OF this, of dht]
    obtain w' where w': "dht_await_data ?w1 dht = Some (DHT_ERR_TIMEOUT, w')"
      "advanced ?w1 0 (Suc k) (k + 2) w'"
      by blast
    have "dht_read w0 dht reading0 = Some (DHT_ERR_TIMEOUT, zero_reading, w')"
      using w'(1) by (simp add: dht_read_stages [OF req])
    moreover have "level_calls w' = level_calls w + k + 1" "timer_calls w' = timer_calls w + k + 2"
      using w'(2) w1 by (simp_all add: advanced_def)
    ultimately show ?thesis by blast
  qed
  have high: "\<exists>w'. dht_read w0 dht reading0 = Some (DHT_ERR_TIMEOUT, zero_reading, w') \<and>
                    level_calls w' = level_calls w + k + 2 \<and>
                    timer_calls w' = timer_calls w + k + 3"
    if a: "line_levels w (level_calls w) = 1 \<and>
            keeps_waiting w 1 (timer_values w (timer_calls w + 1)) 90
              (level_calls w + 1) (timer_calls w + 2) k \<and>
            line_levels w (level_calls w + 1 + k) = 1 \<and>
            90 \<le> timer_values w (timer_calls w + 2 + k) - timer_values w (timer_calls w + 1)"
  proof -
    have 1: "keeps_waiting ?w1 0 (timer_values ?w1 (timer_calls ?w1)) 90
             (level_calls ?w1) (Suc (timer_calls ?w1)) 0"
      by simp
    have 2: "line_levels ?w1 (level_calls ?w1 + 0) \<noteq> 0"
      using a w1 by simp
    have 3: "keeps_waiting ?w1 1 (timer_values ?w1 (timer_calls ?w1 + 0 + 1)) 90
             (level_calls ?w1 + 0 + 1) (timer_calls ?w1 + 0 + 2) k"
      using a w1 by (simp add: keeps_waiting_cong [OF w1(1,2)])
    have 4: "line_levels ?w1 (level_calls ?w1 + 0 + 1 + k) = 1 \<and>
          90 \<le> timer_values ?w1 (timer_calls ?w1 + 0 + 2 + k) -
                 timer_values ?w1 (timer_calls ?w1 + 0 + 1)"
      using a w1 by simp
    from await_high [OF 1 2 3, of dht] 4
    obtain w' where w': "dht_await_data ?w1 dht = Some (DHT_ERR_TIMEOUT, w')"
      "advanced ?w1 0 (0 + k + 2) (0 + k + 3) w'"
      by blast
    have "dht_read w0 dht reading0 = Some (DHT_ERR_TIMEOUT, zero_reading, w')"
      using w'(1) by (simp add: dht_read_stages [OF req])
    moreover have "level_calls w' = level_calls w + k + 2" "timer_calls w' = timer_calls w + k + 3"
      using w'(2) w1 by (simp_all add: advanced_def)
    ultimately show ?thesis by blast
  qed
  from w0(1) low high show ?thesis by blast
qed

theorem stuck_line_times_out_witness:
  "fst (dht_init (boot_world (\<lambda>k. ESP_OK) (\<lambda>k. 0) (\<lambda>k. 7 * int k)) 22) = DHT_OK \<and>
   map_option (\<lambda>(s, r, w'). (s, level_calls w', timer_calls w'))
     (dht_read (snd (dht_init (boot_world (\<lambda>k. ESP_OK) (\<lambda>k. 0) (\<lambda>k. 7 * int k)) 22))
        22 zero_reading) = Some (DHT_ERR_TIMEOUT, 13, 14) \<and>
   fst (dht_init (boot_world (\<lambda>k. ESP_OK) (\<lambda>k. 1) (\<lambda>k. 7 * int k)) 22) = DHT_OK \<and>
   map_option (\<lambda>(s, r, w'). (s, level_calls w', timer_calls w'))
     (dht_read (snd (dht_init (boot_world (\<lambda>k. ESP_OK) (\<lambda>k. 1) (\<lambda>k. 7 * int k)) 22))
        22 zero_reading) = Some (DHT_ERR_TIMEOUT, 14, 15) \<and>
   map_option (\<lambda>(s, r, w'). (s, level_calls w', timer_calls w'))
     (dht_read (snd (dht_init (boot_world (\<lambda>k. ESP_OK) (\<lambda>k. 0) (\<lambda>k. int k div 2)) 22))
        22 zero_reading) = Some (DHT_ERR_TIMEOUT, 180, 181) \<and>
   map_option (\<lambda>(s, r, w'). (s, level_calls w', timer_calls w'))
     (dht_read (snd (dht_init
         (boot_world (\<lambda>k. ESP_OK) (\<lambda>k. if k < 20 then 0 else 1) (\<lambda>k. 7 * int k)) 22))
        22 zero_reading) = Some (DHT_ERR_TIMEOUT, 13, 14)"
proof -
  let ?low = "boot_world (\<lambda>k. ESP_OK) (\<lambda>k. 0) (\<lambda>k. 7 * int k)"
  let ?high = "boot_world (\<lambda>k. ESP_OK) (\<lambda>k. 1) (\<lambda>k. 7 * int k)"
  let ?slow = "boot_world (\<lambda>k. ESP_OK) (\<lambda>k. 0) (\<lambda>k. int k div 2)"
  let ?late = "boot_world (\<lambda>k. ESP_OK) (\<lambda>k. if k < 20 then 0 else 1) (\<lambda>k. 7 * int k)"
  have low: "\<forall>i<6. gpio_results ?low (gpio_calls ?low + i) = ESP_OK"
    "keeps_waiting ?low 0 (timer_values ?low (timer_calls ?low)) 90
       (level_calls ?low) (timer_calls ?low + 1) 12 \<and>
     line_levels ?low (level_calls ?low + 12) = 0 \<and>
     90 \<le> timer_values ?low (timer_calls ?low + 1 + 12) - timer_values ?low (timer_calls ?low)"
    by (simp_all add: keeps_waiting_iff)
  have high: "\<forall>i<6. gpio_results ?high (gpio_calls ?high + i) = ESP_OK"
    "line_levels ?high (level_calls ?high) = 1 \<and>
     keeps_waiting ?high 1 (timer_values ?high (timer_calls ?high + 1)) 90
       (level_calls ?high + 1) (timer_calls ?high + 2) 12 \<and>
     line_levels ?high (level_calls ?high + 1 + 12) = 1 \<and>
     90 \<le> timer_values ?high (timer_calls ?high + 2 + 12) -
            timer_values ?high (timer_calls ?high + 1)"
    by (simp_all add: keeps_waiting_iff)
  have "\<forall>j<179. (1 + int j) div 2 < 90"
    by presburger
  then have slow: "\<forall>i<6. gpio_results ?slow (gpio_calls ?slow + i) = ESP_OK"
    "keeps_waiting ?slow 0 (timer_values ?slow (timer_calls ?slow)) 90
       (level_calls ?slow) (timer_calls ?slow + 1) 179 \<and>
     line_levels ?slow (level_calls ?slow + 179) = 0 \<and>
     90 \<le> timer_values ?slow (timer_calls ?slow + 1 + 179) -
            timer_values ?slow (timer_calls ?slow)"
    by (simp_all add: keeps_waiting_iff)
  have late: "\<forall>i<6. gpio_results ?late (gpio_calls ?late + i) = ESP_OK"
    "keeps_waiting ?late 0 (timer_values ?late (timer_calls ?late)) 90
       (level_calls ?late) (timer_calls ?late + 1) 12 \<and>
     line_levels ?late (level_calls ?late + 12) = 0 \<and>
     90 \<le> timer_values ?late (timer_calls ?late + 1 + 12) - timer_values ?late (timer_calls ?late)"
    by (simp_all add: keeps_waiting_iff)
  from stuck_line_times_out [OF low(1), of 22 12 zero_reading] low(2)
  have 1: "fst (dht_init ?low 22) = DHT_OK \<and>
       map_option (\<lambda>(s, r, w'). (s, level_calls w', timer_calls w'))
         (dht_read (snd (dht_init ?low 22)) 22 zero_reading) = Some (DHT_ERR_TIMEOUT, 13, 14)"
    by auto
  from stuck_line_times_out [OF high(1), of 22 12 zero_reading] high(2)
  have 2: "fst (dht_init ?high 22) = DHT_OK \<and>
       map_option (\<lambda>(s, r, w'). (s, level_calls w', timer_calls w'))
         (dht_read (snd (dht_init ?high 22)) 22 zero_reading) = Some (DHT_ERR_TIMEOUT, 14, 15)"
    by auto
  from stuck_line_times_out [OF slow(1), of 22 179 zero_reading] slow(2)
  have 3: "map_option (\<lambda>(s, r, w'). (s, level_calls w', timer_calls w'))
         (dht_read (snd (dht_init ?slow 22)) 22 zero_reading) = Some (DHT_ERR_TIMEOUT, 180, 181)"
    by auto
  from stuck_line_times_out [OF late(1), of 22 12 zero_reading] late(2)
  have 4: "map_option (\<lambda>(s, r, w'). (s, level_calls w', timer_calls w'))
         (dht_read (snd (dht_init ?late 22)) 22 zero_reading) = Some (DHT_ERR_TIMEOUT, 13, 14)"
    by auto
  from 1 2 3 4 show ?thesis by blast
qed

lemma first_bit_stuck_low:
  "\<exists>w2 w3.
     dht_request_readings
       (boot_world (\<lambda>k. ESP_OK) (\<lambda>k. if k = 1 \<or> k = 2 then 1 else 0) (\<lambda>k. 40 * int k)) 22 =
       (DHT_OK, request_world 22 4
          (boot_world (\<lambda>k. ESP_OK) (\<lambda>k. if k = 1 \<or> k = 2 then 1 else 0) (\<lambda>k. 40 * int k))) \<and>
     dht_await_data (request_world 22 4
          (boot_world (\<lambda>k. ESP_OK) (\<lambda>k. if k = 1 \<or> k = 2 then 1 else 0) (\<lambda>k. 40 * int k)))
       22 = Some (DHT_OK, w2) \<and>
     bit_sequence 40 22 w2 = Some ([], DHT_ERR_TIMEOUT, w3) \<and>
     level_calls w3 = 6 \<and> timer_calls w3 = 7"
proof -
  let ?t = "boot_world (\<lambda>k. ESP_OK) (\<lambda>k. if k = 1 \<or> k = 2 then 1 else 0) (\<lambda>k. 40 * int k)"
  let ?w1 = "request_world 22 4 ?t"
  have req: "dht_request_readings ?t 22 = (DHT_OK, ?w1)"
    by (intro request_returns_ok) simp
  have f1: "line_levels ?w1 = (\<lambda>k. if k = 1 \<or> k = 2 then 1 else 0)"
    "timer_values ?w1 = (\<lambda>k. 40 * int k)" "level_calls ?w1 = 0" "timer_calls ?w1 = 0"
    by simp_all
  have low: "keeps_waiting ?w1 0 (timer_values ?w1 (timer_calls ?w1)) 90
             (level_calls ?w1) (Suc (timer_calls ?w1)) 1"
    by (simp add: keeps_waiting_iff)
  have rise: "line_levels ?w1 (level_calls ?w1 + 1) \<noteq> 0"
    by simp
  have high: "keeps_waiting ?w1 1 (timer_values ?w1 (timer_calls ?w1 + 1 + 1)) 90
             (level_calls ?w1 + 1 + 1) (timer_calls ?w1 + 1 + 2) 1"
    by (simp add: keeps_waiting_iff)
  have fall: "line_levels ?w1 (level_calls ?w1 + 1 + 1 + 1) \<noteq> 1"
    by simp
  from await_high [OF low rise high, of 22] fall
  obtain w2 where w2: "dht_await_data ?w1 22 = Some (DHT_OK, w2)"
    "advanced ?w1 0 (1 + 1 + 2) (1 + 1 + 2) w2"
    by blast
  have f2: "line_levels w2 = (\<lambda>k. if k = 1 \<or> k = 2 then 1 else 0)"
    "timer_values w2 = (\<lambda>k. 40 * int k)" "level_calls w2 = 4" "timer_calls w2 = 4"
    using w2(2) f1 by (simp_all add: advanced_def)
  have wait: "keeps_waiting w2 0 (timer_values w2 (timer_calls w2)) 70
             (level_calls w2) (Suc (timer_calls w2)) 1"
    using f2 by (simp add: keeps_waiting_iff)
  have still: "line_levels w2 (level_calls w2 + 1) = 0"
    using f2 by simp
  have late: "70 \<le> timer_values w2 (Suc (timer_calls w2) + 1) - timer_values w2 (timer_calls w2)"
    using f2 by simp
  from read_bit_low_timeout [OF wait still late, of 22 False]
  obtain w3 where w3: "dht_read_bit w2 22 False = Some (DHT_ERR_TIMEOUT, False, w3)"
    "advanced w2 0 (Suc 1) (1 + 2) w3"
    by blast
  have "bit_sequence (Suc 39) 22 w2 = Some ([], DHT_ERR_TIMEOUT, w3)"
    unfolding bit_sequence.simps w3(1) by simp
  moreover have "(40 :: nat) = Suc 39"
    by simp
  ultimately have bits: "bit_sequence 40 22 w2 = Some ([], DHT_ERR_TIMEOUT, w3)"
    by (simp only:)
  have "level_calls w3 = 6" "timer_calls w3 = 7"
    using w3(2) f2 by (simp_all add: advanced_def)
  with req w2(1) bits show ?thesis by blast
qed

text \<open>
  C6. The two nested loops of \<^verbatim>\<open>dht_read\<close> are \<open>8 * 5 = 40\<close> bit reads in a row, each
  followed by a delay of 10 microseconds when it succeeds, and stopped by the first
  timeout with the status \<^verbatim>\<open>DHT_ERR_TIMEOUT\<close>. The buffer holds, for every byte whose
  eight bits were all read, the byte with the first bit read at position 7 and the last at
  position 0, and zero for the other bytes. The sequence reads all 40 bits when it ends
  with \<^verbatim>\<open>DHT_OK\<close> and fewer when it ends with \<^verbatim>\<open>DHT_ERR_TIMEOUT\<close>. A call of
  \<^verbatim>\<open>dht_read\<close> whose request and handshake have succeeded is decided by this sequence:
  at the first timeout it returns \<^verbatim>\<open>DHT_ERR_TIMEOUT\<close> in the world that bit read left,
  with no call after it; with 40 bits read it goes on to the checksum test and the
  decoding with the frame made of them.
\<close>

theorem frame_assembly:
  "read_frame_loop 0 dht (replicate DHT_BYTES_PER_READ 0x00) bit_in w =
     map_option (\<lambda>(bs, s, w'). (s, frame_of_bits bs, w'))
       (bit_sequence (8 * DHT_BYTES_PER_READ) dht w) \<and>
   (\<forall>bs s w'. bit_sequence (8 * DHT_BYTES_PER_READ) dht w = Some (bs, s, w') \<longrightarrow>
      s = DHT_OK \<and> length bs = 40 \<or> s = DHT_ERR_TIMEOUT \<and> length bs < 40) \<and>
   (\<forall>w0 w1. dht_request_readings w0 dht = (DHT_OK, w1) \<and>
            dht_await_data w1 dht = Some (DHT_OK, w) \<longrightarrow>
      dht_read w0 dht reading0 =
        (case bit_sequence (8 * DHT_BYTES_PER_READ) dht w of
           None \<Rightarrow> None
         | Some (bs, s, w') \<Rightarrow>
             if s = DHT_ERR_TIMEOUT then Some (DHT_ERR_TIMEOUT, zero_reading, w')
             else if checksum_matches (frame_of_bits bs)
               then Some (DHT_OK, parse_buffer zero_reading (frame_of_bits bs), w')
               else Some (DHT_ERR_BADCHECKSUM, zero_reading, w')))"
proof (intro conjI allI impI)
  show "read_frame_loop 0 dht (replicate DHT_BYTES_PER_READ 0x00) bit_in w =
     map_option (\<lambda>(bs, s, w'). (s, frame_of_bits bs, w'))
       (bit_sequence (8 * DHT_BYTES_PER_READ) dht w)"
    using read_frame_loop_bits [of 0 5 "replicate 5 0" dht bit_in w]
    by (simp add: DHT_BYTES_PER_READ_def stored_frame)
next
  fix bs s w'
  assume "bit_sequence (8 * DHT_BYTES_PER_READ) dht w = Some (bs, s, w')"
  then show "s = DHT_OK \<and> length bs = 40 \<or> s = DHT_ERR_TIMEOUT \<and> length bs < 40"
    using bit_sequence_length [of 40 dht w bs s w'] by (simp add: DHT_BYTES_PER_READ_def)
next
  fix w0 w1
  assume a: "dht_request_readings w0 dht = (DHT_OK, w1) \<and>
            dht_await_data w1 dht = Some (DHT_OK, w)"
  then have req: "dht_request_readings w0 dht = (DHT_OK, w1)"
    and await: "dht_await_data w1 dht = Some (DHT_OK, w)"
    by simp_all
  show "dht_read w0 dht reading0 =
        (case bit_sequence (8 * DHT_BYTES_PER_READ) dht w of
           None \<Rightarrow> None
         | Some (bs, s, w') \<Rightarrow>
             if s = DHT_ERR_TIMEOUT then Some (DHT_ERR_TIMEOUT, zero_reading, w')
             else if checksum_matches (frame_of_bits bs)
               then Some (DHT_OK, parse_buffer zero_reading (frame_of_bits bs), w')
               else Some (DHT_ERR_BADCHECKSUM, zero_reading, w'))"
    unfolding dht_read_stages [OF req] await
    by (simp add: DHT_BYTES_PER_READ_def split: option.splits)
qed

theorem frame_assembly_witness:
  "map_option (\<lambda>(s, r, w'). (s, r))
     (dht_read (sensor_world [0x02, 0x8C, 0x01, 0x02, 0x91]) 22 zero_reading) =
     Some (DHT_OK, parse_buffer zero_reading [0x02, 0x8C, 0x01, 0x02, 0x91]) \<and>
   map_option (\<lambda>(s, r, w'). (s, r, level_calls w', timer_calls w'))
     (dht_read (boot_world (\<lambda>k. ESP_OK) (\<lambda>k. if k = 1 \<or> k = 2 then 1 else 0) (\<lambda>k. 40 * int k))
        22 zero_reading) = Some (DHT_ERR_TIMEOUT, zero_reading, 6, 7) \<and>
   map_option (\<lambda>(s, buf, w). (s, buf))
     (read_frame_loop 0 22 (replicate DHT_BYTES_PER_READ 0x00) False
        ((sensor_world [0x02, 0x8C, 0x01, 0x02, 0x91])\<lparr>level_calls := 4, timer_calls := 4\<rparr>)) =
     Some (DHT_OK, [0x02, 0x8C, 0x01, 0x02, 0x91]) \<and>
   map_option (\<lambda>(s, buf, w). (s, buf))
     (read_frame_loop 0 22 (replicate DHT_BYTES_PER_READ 0x00) False
        (boot_world (\<lambda>k. 0) (\<lambda>k. 0) (\<lambda>k. 1000 + 35 * int k))) =
     Some (DHT_ERR_TIMEOUT, [0x00, 0x00, 0x00, 0x00, 0x00])"
proof -
  let ?frame = "[0x02, 0x8C, 0x01, 0x02, 0x91] :: 8 word list"
  let ?bits = "concat (map bits_of_byte ?frame)"
  let ?w = "(sensor_world ?frame)\<lparr>level_calls := 4, timer_calls := 4\<rparr>"
  let ?stuck = "boot_world (\<lambda>k. 0) (\<lambda>k. 0) (\<lambda>k. 1000 + 35 * int k)"
  let ?t = "boot_world (\<lambda>k. ESP_OK) (\<lambda>k. if k = 1 \<or> k = 2 then 1 else 0) (\<lambda>k. 40 * int k)"
  have frame: "frame_of_bits ?bits = ?frame"
    by (rule frame_of_bits_frame) simp
  have sum: "checksum_matches ?frame"
    by (simp add: checksum_matches_def)
  from sensor_frame [of ?frame 22] obtain w1 w2 w3 where
    s: "dht_request_readings (sensor_world ?frame) 22 = (DHT_OK, w1)"
    "dht_await_data w1 22 = Some (DHT_OK, w2)"
    "bit_sequence 40 22 w2 = Some (?bits, DHT_OK, w3)"
    by auto
  have a: "map_option (\<lambda>(s, r, w'). (s, r)) (dht_read (sensor_world ?frame) 22 zero_reading) =
     Some (DHT_OK, parse_buffer zero_reading ?frame)"
    using frame_assembly [of 22 False w2 zero_reading, THEN conjunct2, THEN conjunct2,
        rule_format, of "sensor_world ?frame" w1] s frame sum
    by (simp add: DHT_BYTES_PER_READ_def)
  from first_bit_stuck_low obtain v2 v3 where
    t: "dht_request_readings ?t 22 = (DHT_OK, request_world 22 4 ?t)"
    "dht_await_data (request_world 22 4 ?t) 22 = Some (DHT_OK, v2)"
    "bit_sequence 40 22 v2 = Some ([], DHT_ERR_TIMEOUT, v3)"
    "level_calls v3 = 6" "timer_calls v3 = 7"
    by blast
  have b: "map_option (\<lambda>(s, r, w'). (s, r, level_calls w', timer_calls w'))
     (dht_read ?t 22 zero_reading) = Some (DHT_ERR_TIMEOUT, zero_reading, 6, 7)"
    using frame_assembly [of 22 False v2 zero_reading, THEN conjunct2, THEN conjunct2,
        rule_format, of ?t "request_world 22 4 ?t"] t
    by (simp add: DHT_BYTES_PER_READ_def)
  have "sensor_at ?bits 0 ?w"
    by (simp add: sensor_at_def sensor_world_def)
  from sensor_bits [OF this, of 40 22] obtain w' where
    run: "bit_sequence 40 22 ?w = Some (?bits, DHT_OK, w')"
    by auto
  have 1: "map_option (\<lambda>(s, buf, w). (s, buf))
     (read_frame_loop 0 22 (replicate DHT_BYTES_PER_READ 0x00) False ?w) = Some (DHT_OK, ?frame)"
    using frame_assembly [of 22 False ?w zero_reading, THEN conjunct1] run frame
    by (simp add: DHT_BYTES_PER_READ_def)
  have low: "keeps_waiting ?stuck 0 (timer_values ?stuck (timer_calls ?stuck)) 70
             (level_calls ?stuck) (Suc (timer_calls ?stuck)) 1"
    by (simp add: keeps_waiting_Suc)
  from read_bit_low_timeout [OF low, of 22 False] obtain u1 where
    bit: "dht_read_bit ?stuck 22 False = Some (DHT_ERR_TIMEOUT, False, u1)"
    by auto
  have "bit_sequence (Suc 39) 22 ?stuck = Some ([], DHT_ERR_TIMEOUT, u1)"
    unfolding bit_sequence.simps bit by simp
  moreover have "(40 :: nat) = Suc 39"
    by simp
  ultimately have stuck: "bit_sequence 40 22 ?stuck = Some ([], DHT_ERR_TIMEOUT, u1)"
    by (simp only:)
  have zero: "frame_of_bits [] = [0x00, 0x00, 0x00, 0x00, 0x00]"
    by (simp add: frame_of_bits_def upt_5)
  have 2: "map_option (\<lambda>(s, buf, w). (s, buf))
     (read_frame_loop 0 22 (replicate DHT_BYTES_PER_READ 0x00) False ?stuck) =
     Some (DHT_ERR_TIMEOUT, [0x00, 0x00, 0x00, 0x00, 0x00])"
    using frame_assembly [of 22 False ?stuck zero_reading, THEN conjunct1] stuck zero
    by (simp add: DHT_BYTES_PER_READ_def)
  from a b 1 2 show ?thesis by blast
qed

theorem dht_read_first_failing_stage_witness:
  "map_option (\<lambda>(s, r, w'). (s, r, gpio_calls w', level_calls w', timer_calls w', trace w'))
     (dht_read (boot_world (\<lambda>k. if k = 2 then - 1 else ESP_OK) (\<lambda>k. 0) (\<lambda>k. 0))
        22 \<lparr>temperature = 25, humidity = 60, checksum = 0x07\<rparr>) =
     Some (DHT_ERR_GPIO, zero_reading, 3, 0, 0,
           [Set_level 22 1, Delay_us 3000, Set_level 22 0, Set_direction 22 GPIO_MODE_OUTPUT]) \<and>
   status_of (dht_read (boot_world (\<lambda>k. ESP_OK) (\<lambda>k. 0) (\<lambda>k. 7 * int k)) 22 zero_reading) =
     Some DHT_ERR_TIMEOUT \<and>
   status_of (dht_read
      (boot_world (\<lambda>k. ESP_OK) (\<lambda>k. if k = 1 \<or> k = 2 then 1 else 0) (\<lambda>k. 40 * int k))
      22 zero_reading) = Some DHT_ERR_TIMEOUT \<and>
   status_of (dht_read (sensor_world [0x02, 0x8C, 0x01, 0x02, 0x92]) 22 zero_reading) =
     Some DHT_ERR_BADCHECKSUM \<and>
   status_of (dht_read (sensor_world [0x02, 0x8C, 0x01, 0x02, 0x91]) 22 zero_reading) =
     Some DHT_OK"
proof -
  let ?good = "[0x02, 0x8C, 0x01, 0x02, 0x91] :: 8 word list"
  let ?bad = "[0x02, 0x8C, 0x01, 0x02, 0x92] :: 8 word list"
  let ?old = "\<lparr>temperature = 25, humidity = 60, checksum = 0x07\<rparr>"
  let ?g = "boot_world (\<lambda>k. if k = 2 then - 1 else ESP_OK) (\<lambda>k. 0) (\<lambda>k. 0)"
  let ?t = "boot_world (\<lambda>k. ESP_OK) (\<lambda>k. if k = 1 \<or> k = 2 then 1 else 0) (\<lambda>k. 40 * int k)"
  have fail: "(2::nat) < 4" "(\<forall>j<2. gpio_results ?g (gpio_calls ?g + j) = ESP_OK) \<and>
    gpio_results ?g (gpio_calls ?g + 2) \<noteq> ESP_OK"
    by (simp_all add: ESP_OK_def)
  from dht_read_first_failing_stage [of ?g 22 ?old, THEN conjunct1, rule_format, OF fail]
  have "dht_read ?g 22 ?old = Some (DHT_ERR_GPIO, zero_reading, request_world 22 (Suc 2) ?g)"
    by simp
  then have 1: "map_option
      (\<lambda>(s, r, w'). (s, r, gpio_calls w', level_calls w', timer_calls w', trace w'))
      (dht_read ?g 22 ?old) =
     Some (DHT_ERR_GPIO, zero_reading, 3, 0, 0,
           [Set_level 22 1, Delay_us 3000, Set_level 22 0, Set_direction 22 GPIO_MODE_OUTPUT])"
    by (simp add: request_world_def request_calls_def numeral_3_eq_3)
  let ?low = "boot_world (\<lambda>k. ESP_OK) (\<lambda>k. 0) (\<lambda>k. 7 * int k)"
  let ?l1 = "request_world 22 4 ?low"
  have okl: "\<forall>i<4. gpio_results ?low (gpio_calls ?low + i) = ESP_OK"
    by simp
  have "keeps_waiting ?l1 0 (timer_values ?l1 (timer_calls ?l1)) 90
          (level_calls ?l1) (Suc (timer_calls ?l1)) 12"
    "line_levels ?l1 (level_calls ?l1 + 12) = 0"
    "90 \<le> timer_values ?l1 (Suc (timer_calls ?l1) + 12) - timer_values ?l1 (timer_calls ?l1)"
    by (simp_all add: keeps_waiting_iff)
  from await_low_timeout [OF this, of 22] obtain l2 where
    l: "dht_await_data ?l1 22 = Some (DHT_ERR_TIMEOUT, l2)"
    by blast
  from dht_read_first_failing_stage [of ?low 22 zero_reading, THEN conjunct2, THEN conjunct1,
      THEN mp, OF okl] l
  have 5: "status_of (dht_read ?low 22 zero_reading) = Some DHT_ERR_TIMEOUT"
    by (simp add: status_of_def)
  have okt: "\<forall>i<4. gpio_results ?t (gpio_calls ?t + i) = ESP_OK"
    by simp
  from first_bit_stuck_low obtain v2 v3 where
    t: "dht_await_data (request_world 22 4 ?t) 22 = Some (DHT_OK, v2)"
    "bit_sequence 40 22 v2 = Some ([], DHT_ERR_TIMEOUT, v3)"
    by blast
  from dht_read_first_failing_stage [of ?t 22 zero_reading, THEN conjunct2, THEN conjunct1,
      THEN mp, OF okt] t
  have 2: "status_of (dht_read ?t 22 zero_reading) = Some DHT_ERR_TIMEOUT"
    by (simp add: status_of_def)
  have run: "status_of (dht_read (sensor_world frame) 22 zero_reading) =
      Some (if checksum_matches frame then DHT_OK else DHT_ERR_BADCHECKSUM)"
    if len: "length frame = 5" for frame
  proof -
    have ok: "\<forall>i<4. gpio_results (sensor_world frame) (gpio_calls (sensor_world frame) + i) = ESP_OK"
      by (simp add: sensor_world_def)
    from sensor_frame [OF len, of 22] obtain w1 w2 w3 where
      s: "dht_request_readings (sensor_world frame) 22 = (DHT_OK, w1)"
      "dht_await_data w1 22 = Some (DHT_OK, w2)"
      "bit_sequence 40 22 w2 = Some (concat (map bits_of_byte frame), DHT_OK, w3)"
      by auto
    from dht_read_first_failing_stage [of "sensor_world frame" 22 zero_reading,
        THEN conjunct2, THEN conjunct1, THEN mp, OF ok] s
    show ?thesis
      by (simp add: status_of_def frame_of_bits_frame [OF len])
  qed
  have 3: "status_of (dht_read (sensor_world ?bad) 22 zero_reading) = Some DHT_ERR_BADCHECKSUM"
    using run [of ?bad] by (simp add: checksum_matches_def)
  have 4: "status_of (dht_read (sensor_world ?good) 22 zero_reading) = Some DHT_OK"
    using run [of ?good] by (simp add: checksum_matches_def)
  from 1 5 2 3 4 show ?thesis by blast
qed

end
